theory Spec2Isabelle
  imports Main "HOL-Library.AList" "HOL-Library.Sublist" "HOL-Library.Char_ord"
    "HOL-Library.List_Lexorder" "HOL-Library.Product_Lexorder" "HOL-Library.Monad_Syntax"
    "HOL-Library.Multiset"
begin

section \<open>Python values used by rummikub\_game.py\<close>

text \<open>
  Dictionaries keep their insertion order and the program iterates over them, so a
  dictionary is an association list with distinct keys: \<open>AList.update\<close> is
  \<^verbatim>\<open>d[k] = v\<close> (overwrite in place, or append), \<open>map_of\<close> is the lookup.
  A raised exception is the value \<open>None\<close> of an option result.
\<close>

subsection \<open>Strings\<close>

text \<open>\<^verbatim>\<open>a in b\<close> on two strings: \<open>a\<close> occurs in \<open>b\<close> as a contiguous piece.\<close>

definition contains :: "string \<Rightarrow> string \<Rightarrow> bool" where
  "contains a b = sublist a b"

text \<open>\<^verbatim>\<open>s[-a:-b]\<close>: both ends counted from the end of the string and clipped at its start.\<close>

definition slice_neg :: "nat \<Rightarrow> nat \<Rightarrow> string \<Rightarrow> string" where
  "slice_neg a b s = take ((length s - b) - (length s - a)) (drop (length s - a) s)"

definition is_digit_char :: "char \<Rightarrow> bool" where
  "is_digit_char c = (c \<in> set ''0123456789'')"

text \<open>\<^verbatim>\<open>s.isdigit()\<close>: non-empty and every character a digit.\<close>

definition isdigit :: "string \<Rightarrow> bool" where
  "isdigit s = (s \<noteq> [] \<and> list_all is_digit_char s)"

definition digit_val :: "char \<Rightarrow> int" where
  "digit_val c = int (of_char c) - 48"

text \<open>
  \<^verbatim>\<open>int(s)\<close> on the card strings the program cuts out of a key: one or two characters,
  for which \<open>int\<close> returns exactly on digit strings and raises ValueError otherwise.
\<close>

definition py_int :: "string \<Rightarrow> int option" where
  "py_int s = (if isdigit s then Some (foldl (\<lambda>a c. 10 * a + digit_val c) 0 s) else None)"

definition digit_char :: "nat \<Rightarrow> char" where
  "digit_char d = ''0123456789'' ! d"

text \<open>\<^verbatim>\<open>str(n)\<close> of a non-negative integer.\<close>

fun str :: "nat \<Rightarrow> string" where
  "str n = (if n < 10 then [digit_char n] else str (n div 10) @ [digit_char (n mod 10)])"

declare str.simps [simp del]

text \<open>\<^verbatim>\<open>x in range(a, b)\<close> and the list \<^verbatim>\<open>range(a, b, step)\<close> for a positive step.\<close>

definition in_range :: "int \<Rightarrow> int \<Rightarrow> int \<Rightarrow> bool" where
  "in_range x a b = (a \<le> x \<and> x < b)"

definition range_step :: "int \<Rightarrow> int \<Rightarrow> int \<Rightarrow> int list" where
  "range_step a b step =
     map (\<lambda>i. a + int i * step) [0 ..< nat ((b - a + step - 1) div step)]"

text \<open>\<^verbatim>\<open>d.setdefault(k, []).append(v)\<close>, also written with an explicit membership test.\<close>

fun setdefault_append :: "'k \<Rightarrow> 'v \<Rightarrow> ('k \<times> 'v list) list \<Rightarrow> ('k \<times> 'v list) list" where
  "setdefault_append k v [] = [(k, [v])]"
| "setdefault_append k v ((k', vs) # rest) =
     (if k' = k then (k', vs @ [v]) # rest else (k', vs) # setdefault_append k v rest)"

section \<open>The meld test of update\_values\<close>

text \<open>
  check\_logic hands update\_values a dictionary \<open>item_sum\<close> from tile key to
  \<open>(card, color, value)\<close>: the number and the colour as the strings cut out of the key,
  and the tile's position on the board.
\<close>

type_synonym item_value = "string \<times> string \<times> (int \<times> int)"
type_synonym item_sum = "(string \<times> item_value) list"

text \<open>The loop over \<open>even_values\<close> (lines 876-882); \<open>Some False\<close> is the \<^verbatim>\<open>break\<close>.\<close>

fun even_loop :: "string list \<Rightarrow> bool option" where
  "even_loop (a # b # rest) =
     (case py_int a of None \<Rightarrow> None | Some current_value \<Rightarrow>
      (case py_int b of None \<Rightarrow> None | Some next_value \<Rightarrow>
        if current_value mod 2 \<noteq> 0 \<or> (current_value \<ge> next_value \<and> current_value + 2 \<noteq> next_value)
        then Some False else even_loop (b # rest)))"
| "even_loop _ = Some True"

definition all_even_numbers_satisfied :: "string list \<Rightarrow> bool option" where
  "all_even_numbers_satisfied cards =
     (case even_loop cards of None \<Rightarrow> None | Some ok \<Rightarrow>
      (case py_int (last cards) of None \<Rightarrow> None | Some v \<Rightarrow>
        Some (if v mod 2 \<noteq> 0 then False else ok)))"

text \<open>The loop over \<open>odd_values\<close> (lines 890-896).\<close>

fun odd_loop :: "string list \<Rightarrow> bool option" where
  "odd_loop (a # b # rest) =
     (case py_int a of None \<Rightarrow> None | Some current_value \<Rightarrow>
      (case py_int b of None \<Rightarrow> None | Some next_value \<Rightarrow>
        if current_value mod 2 = 0 \<or> (current_value \<ge> next_value \<and> current_value + 2 \<noteq> next_value)
        then Some False else odd_loop (b # rest)))"
| "odd_loop _ = Some True"

definition all_odd_numbers_satisfied :: "string list \<Rightarrow> bool option" where
  "all_odd_numbers_satisfied cards =
     (case odd_loop cards of None \<Rightarrow> None | Some ok \<Rightarrow>
      (case py_int (last cards) of None \<Rightarrow> None | Some v \<Rightarrow>
        Some (if v mod 2 = 0 then False else ok)))"

text \<open>
  Lines 863-902: the condition under which update\_values commits. An empty dictionary
  raises at \<^verbatim>\<open>next(iter(item_sum))\<close>. In Python \<^verbatim>\<open>a and b or c\<close> is \<^verbatim>\<open>(a and b) or c\<close>.
\<close>

definition meld_test :: "item_value list \<Rightarrow> bool option" where
  "meld_test vals =
     (case vals of [] \<Rightarrow> None
      | first # others \<Rightarrow>
         (let prev_item_value = fst first;
              prev_item_color = fst (snd first);
              all_same_numbers_satisfied = list_all (\<lambda>v. fst v = prev_item_value) vals;
              all_different_color_satisfied = list_all (\<lambda>v. fst (snd v) \<noteq> prev_item_color) others;
              all_same_color_satisfied = list_all (\<lambda>v. fst (snd v) = prev_item_color) others
          in case all_even_numbers_satisfied (map fst vals) of None \<Rightarrow> None
             | Some all_even \<Rightarrow>
               (case all_odd_numbers_satisfied (map fst vals) of None \<Rightarrow> None
                | Some all_odd \<Rightarrow>
                   Some ((all_same_numbers_satisfied \<and> all_different_color_satisfied) \<or>
                         (all_same_color_satisfied \<and> all_even \<or> all_odd)))))"

section \<open>Game state\<close>

text \<open>
  A pygame \<open>Rect\<close>: \<open>r[0]\<close>, \<open>r[1]\<close>, \<open>r[2]\<close>, \<open>r[3]\<close> are x, y, width and height;
  \<open>left\<close>, \<open>top\<close> are x, y and \<open>right\<close>, \<open>bottom\<close> are x + width, y + height.
\<close>

datatype rect = Rect (rx: int) (ry: int) (rw: int) (rh: int)

definition set_xy :: "rect \<Rightarrow> int \<Rightarrow> int \<Rightarrow> rect" where
  "set_xy r x y = Rect x y (rw r) (rh r)"

text \<open>
  \<open>PLAYER_1[key]\<close> is built as \<^verbatim>\<open>list(recreated_surface)\<close> from the very tuple stored in
  \<open>game_object_database[key]\<close>, so its rect is the same object (\<open>Shared\<close>) until a
  rearrangement replaces the database entry by a new rect; from then on the rack entry
  keeps a rect of its own (\<open>Own\<close>).
\<close>

datatype rect_ref = Shared | Own rect

text \<open>
  The module-level dictionaries and the two databases of \<open>RummikubGame\<close>. Of an
  \<open>image_database\<close> entry \<open>(image, [x, y], size, rect)\<close> only the coordinate list
  \<open>[x, y]\<close> is kept: it is the last committed position of the tile, and the one
  component the rules read. Surfaces are left out.
\<close>

record game =
  game_object_database :: "(string \<times> rect) list"
  image_database :: "(string \<times> (int \<times> int)) list"
  PLAYER_1 :: "(string \<times> rect_ref) list"
  PLAYER_2 :: "(string \<times> rect) list"
  IMG_PATHS :: "string list"

text \<open>
  The constants imported from surface\_info and draw\_grids, which are not part of the
  sources at hand, are parameters; so is the size of the tile images on disk, which
  \<^verbatim>\<open>loaded_image.get_rect()\<close> reports.
\<close>

record config =
  WINDOW_WIDTH :: int
  WINDOW_HEIGHT :: int
  BIG_BOX :: rect
  BIG_BOX_POSITION :: "int \<times> int"
  BIG_BOX_WIDTH :: int
  BIG_BOX_HEIGHT :: int
  TILES_IMAGES_PATHS :: "string list list"
  TILE_IMAGE_SIZE :: "int \<times> int"

definition keys :: "('k \<times> 'v) list \<Rightarrow> 'k list" where
  "keys d = map fst d"

subsection \<open>Rollback\<close>

text \<open>
  The loop that check\_logic and update\_values each spell out (lines 922-934, 962-974,
  981-993). The two tests \<^verbatim>\<open>key in PLAYER_1.items()\<close> and \<^verbatim>\<open>key in PLAYER_2.items()\<close>
  compare a string with (key, value) pairs and never hold, so their bodies are absent.
  \<open>image_database[key]\<close> raises KeyError for a key it does not hold.
\<close>

fun rollback_loop :: "(string \<times> (int \<times> int)) list \<Rightarrow> (string \<times> rect) list \<Rightarrow> (string \<times> rect) list option" where
  "rollback_loop img [] = Some []"
| "rollback_loop img ((key, r) # rest) =
     (if contains ''images/tiles/1-15'' key then
        (case map_of img key of None \<Rightarrow> None
         | Some xy \<Rightarrow> map_option (Cons (key, set_xy r (fst xy) (snd xy))) (rollback_loop img rest))
      else map_option (Cons (key, r)) (rollback_loop img rest))"

definition rollback :: "game \<Rightarrow> game option" where
  "rollback s =
     map_option (\<lambda>g. s\<lparr>game_object_database := g\<rparr>)
       (rollback_loop (image_database s) (game_object_database s))"

subsection \<open>update\_score\<close>

definition p1_rect :: "game \<Rightarrow> string \<Rightarrow> rect_ref \<Rightarrow> rect option" where
  "p1_rect s key ref = (case ref of Own r \<Rightarrow> Some r | Shared \<Rightarrow> map_of (game_object_database s) key)"

definition outside_rack :: "config \<Rightarrow> int \<times> int \<Rightarrow> int \<times> int \<Rightarrow> string \<Rightarrow> rect \<Rightarrow> bool" where
  "outside_rack cfg rack_size rack_coordinates key r =
     (let x = rx r; y = ry r;
          rack_x = WINDOW_WIDTH cfg div 2 - fst rack_size div 2;
          rack_y = WINDOW_HEIGHT cfg - snd rack_size * 2 + snd rack_size
      in contains ''1-15'' key \<and>
         (\<not> in_range x (fst rack_coordinates) (rack_x + fst rack_size) \<or>
          \<not> in_range y (snd rack_coordinates - snd rack_size) (rack_y + snd rack_size)))"

text \<open>The first loop of update\_score: the keys to delete. Every rack value is a list.\<close>

fun key_deletion :: "config \<Rightarrow> int \<times> int \<Rightarrow> int \<times> int \<Rightarrow> game \<Rightarrow> (string \<times> rect_ref) list \<Rightarrow> string list option" where
  "key_deletion cfg rack_size rack_coordinates s [] = Some []"
| "key_deletion cfg rack_size rack_coordinates s ((key, ref) # rest) =
     (case p1_rect s key ref of None \<Rightarrow> None
      | Some r \<Rightarrow>
         (case key_deletion cfg rack_size rack_coordinates s rest of None \<Rightarrow> None
          | Some ks \<Rightarrow>
             Some (if outside_rack cfg rack_size rack_coordinates key r then key # ks else ks)))"

definition update_score :: "config \<Rightarrow> int \<times> int \<Rightarrow> int \<times> int \<Rightarrow> game \<Rightarrow> game option" where
  "update_score cfg rack_size rack_coordinates s =
     (case key_deletion cfg rack_size rack_coordinates s (PLAYER_1 s) of None \<Rightarrow> None
      | Some ks \<Rightarrow> Some (s\<lparr>PLAYER_1 := filter (\<lambda>kv. fst kv \<notin> set ks) (PLAYER_1 s)\<rparr>))"

subsection \<open>update\_values\<close>

text \<open>
  One round of the committing loop (lines 903-919) for a key that the game object
  database holds. A \<open>Shared\<close> rack rect is the database rect, which the third assignment
  sets to the same position.
\<close>

definition commit_item :: "config \<Rightarrow> string \<Rightarrow> item_value \<Rightarrow> game \<Rightarrow> game option" where
  "commit_item cfg item_key item_value s =
     (let x = fst (snd (snd item_value)); y = snd (snd (snd item_value));
          s1 = s\<lparr>PLAYER_1 := AList.map_entry item_key
                    (\<lambda>ref. case ref of Shared \<Rightarrow> Shared | Own r \<Rightarrow> Own (set_xy r x y)) (PLAYER_1 s)\<rparr>;
          s2 = s1\<lparr>PLAYER_2 := AList.map_entry item_key (\<lambda>r. set_xy r x y) (PLAYER_2 s1)\<rparr>;
          s3 = s2\<lparr>game_object_database :=
                    AList.map_entry item_key (\<lambda>r. set_xy r x y) (game_object_database s2)\<rparr>
      in case map_of (image_database s3) item_key of None \<Rightarrow> None
         | Some _ \<Rightarrow>
            (let s4 = s3\<lparr>image_database := AList.map_entry item_key (\<lambda>_. (x, y)) (image_database s3)\<rparr>
             in case map_of (game_object_database s4) ''brown_rack_image_tile2'' of None \<Rightarrow> None
                | Some rack \<Rightarrow> update_score cfg (rw rack, rh rack) (rx rack, ry rack) s4))"

fun commit_loop :: "config \<Rightarrow> item_sum \<Rightarrow> game \<Rightarrow> game option" where
  "commit_loop cfg [] s = Some s"
| "commit_loop cfg ((item_key, item_value) # rest) s =
     (if item_key \<in> set (keys (game_object_database s)) then
        (case commit_item cfg item_key item_value s of None \<Rightarrow> None
         | Some s' \<Rightarrow> commit_loop cfg rest s')
      else commit_loop cfg rest s)"

definition update_values :: "config \<Rightarrow> item_sum \<Rightarrow> game \<Rightarrow> (bool \<times> game) option" where
  "update_values cfg item_sum s =
     (case meld_test (map snd item_sum) of None \<Rightarrow> None
      | Some ok \<Rightarrow>
         if ok then map_option (Pair True) (commit_loop cfg item_sum s)
         else map_option (Pair False) (rollback s))"

section \<open>Clusters of tiles on the board: get\_tile\_by\_position\<close>

type_synonym item = "string \<times> (int \<times> int)"

text \<open>Lines 760-768: the tiles whose centre lies in \<open>big_box\<close>, with their positions.\<close>

definition in_big_box :: "rect \<Rightarrow> rect \<Rightarrow> bool" where
  "in_big_box big_box tile_position =
     (let tile_center_x = rx tile_position + rw tile_position div 2;
          tile_center_y = ry tile_position + rh tile_position div 2
      in rx big_box \<le> tile_center_x \<and> tile_center_x \<le> rx big_box + rw big_box \<and>
         ry big_box \<le> tile_center_y \<and> tile_center_y \<le> ry big_box + rh big_box)"

definition data_list :: "rect \<Rightarrow> (string \<times> rect) list \<Rightarrow> item list" where
  "data_list big_box god =
     map (\<lambda>kr. (fst kr, (rx (snd kr), ry (snd kr))))
       (filter (\<lambda>kr. contains ''1-15'' (fst kr) \<and> in_big_box big_box (snd kr)) god)"

definition sort_by_dimensions :: "item \<Rightarrow> int \<times> int" where
  "sort_by_dimensions item = (snd (snd item), fst (snd item))"

definition dimensions_dict :: "item list \<Rightarrow> (int \<times> item list) list" where
  "dimensions_dict sorted_data =
     foldl (\<lambda>d data_item. setdefault_append (snd (snd data_item)) data_item d) [] sorted_data"

text \<open>
  The \<^verbatim>\<open>while j != len(combination_items)\<close> loop (lines 797-818) walks over the
  neighbouring pairs of one row; it returns \<open>temp_combination\<close>, \<open>final_combinations\<close>
  and \<open>filtering_list\<close>.
\<close>

fun pair_loop :: "item list \<Rightarrow> item list \<Rightarrow> item list list \<Rightarrow> item list \<Rightarrow>
    item list \<times> item list list \<times> item list" where
  "pair_loop (a # b # rest) temp_combination final_combinations filtering_list =
     (let first_item = snd a; next_item = snd b in
      if snd first_item = snd next_item \<and>
         (fst first_item + 52 = fst next_item \<or> fst first_item - 52 = fst next_item \<or>
          fst first_item = fst next_item + 52 \<or> fst first_item = fst next_item - 52)
      then
        (let t1 = (if a \<in> set temp_combination then temp_combination else temp_combination @ [a]);
             t2 = (if b \<in> set t1 then t1 else t1 @ [b])
         in pair_loop (b # rest) t2 final_combinations filtering_list)
      else pair_loop (b # rest) [] (final_combinations @ [temp_combination])
             (filtering_list @ [a, b]))"
| "pair_loop _ temp_combination final_combinations filtering_list =
     (temp_combination, final_combinations, filtering_list)"

text \<open>
  Lines 794-822. Every row in \<open>shuffled_combinations\<close> has at least two items, so the
  tests on \<^verbatim>\<open>len(combination_items) >= 2\<close> hold and \<open>i\<close> ends one short of the length.
\<close>

fun combine_rows :: "item list list \<Rightarrow> item list list \<Rightarrow> item list \<Rightarrow> item list list \<times> item list" where
  "combine_rows [] final_combinations filtering_list = (final_combinations, filtering_list)"
| "combine_rows (combination_items # rows) final_combinations filtering_list =
     (case pair_loop combination_items [] final_combinations filtering_list of
        (temp, final, filt) \<Rightarrow>
          combine_rows rows (if length combination_items \<ge> 2 then final @ [temp] else final) filt)"

text \<open>
  is\_filtered (lines 825-829) removes from \<open>filtering_list\<close> while iterating over it:
  the iterator is an index into the shrinking list. \<open>remove\<close> deletes the first
  occurrence and raises ValueError when there is none.
\<close>

fun remove_in_each :: "item \<Rightarrow> item list list \<Rightarrow> item list \<Rightarrow> item list option" where
  "remove_in_each v [] fl = Some fl"
| "remove_in_each v (sub_list # subs) fl =
     (if v \<in> set sub_list then
        (if v \<in> set fl then remove_in_each v subs (remove1 v fl) else None)
      else remove_in_each v subs fl)"

lemma remove_in_each_length:
  "remove_in_each v combos fl = Some fl' \<Longrightarrow> length fl' \<le> length fl"
proof (induction combos arbitrary: fl)
  case Nil
  then show ?case by simp
next
  case (Cons sub_list subs)
  show ?case
  proof (cases "v \<in> set sub_list")
    case True
    with Cons.prems have in_fl: "v \<in> set fl" and rest: "remove_in_each v subs (remove1 v fl) = Some fl'"
      by (auto split: if_splits)
    from Cons.IH [OF rest] have "length fl' \<le> length (remove1 v fl)" .
    also have "\<dots> \<le> length fl" by (simp add: length_remove1)
    finally show ?thesis .
  next
    case False
    with Cons.prems have "remove_in_each v subs fl = Some fl'" by simp
    from Cons.IH [OF this] show ?thesis .
  qed
qed

function is_filtered_from :: "nat \<Rightarrow> item list list \<Rightarrow> item list \<Rightarrow> item list option" where
  "is_filtered_from idx combos fl =
     (if idx < length fl then
        (case remove_in_each (fl ! idx) combos fl of None \<Rightarrow> None
         | Some fl' \<Rightarrow> is_filtered_from (Suc idx) combos fl')
      else Some fl)"
  by pat_completeness auto
termination
proof (relation "measure (\<lambda>(idx, combos, fl). length fl - idx)")
  show "wf (measure (\<lambda>(idx, combos, fl). length fl - idx))" by simp
next
  fix idx :: nat and combos :: "item list list" and fl fl' :: "item list"
  assume "idx < length fl" and "remove_in_each (fl ! idx) combos fl = Some fl'"
  then show "((Suc idx, combos, fl'), (idx, combos, fl)) \<in> measure (\<lambda>(idx, combos, fl). length fl - idx)"
    using remove_in_each_length [of "fl ! idx" combos fl fl'] by simp
qed

declare is_filtered_from.simps [simp del]

fun is_filtered_times :: "nat \<Rightarrow> item list list \<Rightarrow> item list \<Rightarrow> item list option" where
  "is_filtered_times 0 combos fl = Some fl"
| "is_filtered_times (Suc n) combos fl =
     (case is_filtered_from 0 combos fl of None \<Rightarrow> None
      | Some fl' \<Rightarrow> is_filtered_times n combos fl')"

definition get_tile_by_position :: "rect \<Rightarrow> game \<Rightarrow> item list list option" where
  "get_tile_by_position big_box s =
     (let sorted_data = sort_key sort_by_dimensions (data_list big_box (game_object_database s));
          dd = dimensions_dict sorted_data;
          shuffled_combinations =
            map (sort_key sort_by_dimensions) (filter (\<lambda>items. length items > 1) (map snd dd));
          remaining_items =
            sort_key sort_by_dimensions (concat (filter (\<lambda>items. \<not> length items > 1) (map snd dd)))
      in case combine_rows shuffled_combinations [] [] of
           (final_combinations, filtering_list) \<Rightarrow>
             (let final_combinations_remove_empty_set = filter (\<lambda>sublist. sublist \<noteq> []) final_combinations
              in case is_filtered_times 15 final_combinations_remove_empty_set filtering_list of
                   None \<Rightarrow> None
                 | Some fl \<Rightarrow>
                    (let final1 = final_combinations_remove_empty_set @ map (\<lambda>filer_val. [filer_val]) fl;
                         remaining1 = filter (\<lambda>item. count_list remaining_items item = 1) remaining_items;
                         remaining2 = filter (\<lambda>item. item \<notin> set (concat final1)) remaining1
                     in Some (if length remaining2 > 0 then final1 @ [remaining2] else final1))))"

section \<open>check\_logic\<close>

text \<open>Lines 953-958: the card number and the colour are cut out of the end of the key.\<close>

definition parse_card :: "string \<Rightarrow> string \<times> string" where
  "parse_card key =
     (if isdigit (slice_neg 6 4 key) then (slice_neg 6 4 key, slice_neg 8 7 key)
      else (slice_neg 5 4 key, slice_neg 7 6 key))"

definition card_number_of :: "item list \<Rightarrow> item_sum" where
  "card_number_of perm_values =
     foldl (\<lambda>d kv. AList.update (fst kv) (fst (parse_card (fst kv)), snd (parse_card (fst kv)), snd kv) d)
       [] perm_values"

text \<open>Equality of two dictionaries: the same key-value pairs.\<close>

definition dict_eq :: "item_sum \<Rightarrow> item_sum \<Rightarrow> bool" where
  "dict_eq a b = (list_all (\<lambda>kv. kv \<in> set b) a \<and> list_all (\<lambda>kv. kv \<in> set a) b)"

definition sizes_ok :: "item list list \<Rightarrow> bool" where
  "sizes_ok permutation_values = list_all (\<lambda>perm_value. 3 \<le> length perm_value \<and> length perm_value < 6) permutation_values"

text \<open>The loop of lines 949-974 over the clusters: it fills \<open>check_sum\<close> or rolls back.\<close>

fun build_check_sum :: "item list list \<Rightarrow> item list list \<Rightarrow> item_sum list \<Rightarrow> game \<Rightarrow> (item_sum list \<times> game) option" where
  "build_check_sum permutation_values [] check_sum s = Some (check_sum, s)"
| "build_check_sum permutation_values (perm_values # rest) check_sum s =
     (if sizes_ok permutation_values then
        (let card_number = card_number_of perm_values
         in build_check_sum permutation_values rest
              (if list_ex (dict_eq card_number) check_sum then check_sum else check_sum @ [card_number]) s)
      else
        (case rollback s of None \<Rightarrow> None
         | Some s' \<Rightarrow> build_check_sum permutation_values rest check_sum s'))"

text \<open>Lines 975-977: update\_values on every dictionary of \<open>check_sum\<close>, in order.\<close>

fun run_checks :: "config \<Rightarrow> item_sum list \<Rightarrow> game \<Rightarrow> (bool list \<times> game) option" where
  "run_checks cfg [] s = Some ([], s)"
| "run_checks cfg (check # rest) s =
     (case update_values cfg check s of None \<Rightarrow> None
      | Some (b, s') \<Rightarrow>
         (case run_checks cfg rest s' of None \<Rightarrow> None
          | Some (bs, s'') \<Rightarrow> Some (b # bs, s'')))"

text \<open>
  The validation pass of check\_logic on given clusters: everything before the
  opponent's turn. The flag tells whether check\_logic goes on to \<^verbatim>\<open>play_ai_turn(True)\<close>,
  that is whether the clusters are non-empty and \<^verbatim>\<open>all(status)\<close> holds.
\<close>

definition validate_clusters :: "config \<Rightarrow> item list list \<Rightarrow> game \<Rightarrow> (bool \<times> game) option" where
  "validate_clusters cfg permutation_values s =
     (if permutation_values \<noteq> [] then
        (case build_check_sum permutation_values permutation_values [] s of None \<Rightarrow> None
         | Some (check_sum, s1) \<Rightarrow>
            (case run_checks cfg check_sum s1 of None \<Rightarrow> None
             | Some (status, s2) \<Rightarrow> Some (list_all (\<lambda>b. b) status, s2)))
      else map_option (Pair False) (rollback s))"

definition validate :: "config \<Rightarrow> game \<Rightarrow> (bool \<times> game) option" where
  "validate cfg s =
     (case get_tile_by_position (BIG_BOX cfg) s of None \<Rightarrow> None
      | Some permutation_values \<Rightarrow> validate_clusters cfg permutation_values s)"

section \<open>Tile keys\<close>

text \<open>\<^verbatim>\<open>xs[i]\<close>: a negative index counts from the end; out of range raises IndexError.\<close>

definition py_nth :: "'a list \<Rightarrow> int \<Rightarrow> 'a option" where
  "py_nth xs i =
     (let n = int (length xs); j = (if i < 0 then n + i else i)
      in if 0 \<le> j \<and> j < n then Some (xs ! nat j) else None)"

definition color :: "string list" where
  "color = [''BLACK'', ''BLUE'', ''GREEN'', ''RED'', ''YELLOW'']"

text \<open>
  Lines 454-459 and 597-602: the key of the tile drawn as \<open>random_tile = (c, n)\<close>,
  \<^verbatim>\<open>"images/tiles/1-15 {}/{}_{}_{}.png".format(color[c - 1], color[c - 1], c, n)\<close>.
\<close>

definition tile_image_path :: "nat \<Rightarrow> nat \<Rightarrow> string option" where
  "tile_image_path c n =
     (case py_nth color (int c - 1) of None \<Rightarrow> None
      | Some name \<Rightarrow>
          Some (''images/tiles/1-15 '' @ name @ ''/'' @ name @ ''_'' @ str c @ ''_'' @ str n @ ''.png''))"

text \<open>
  A cluster of tiles given by colour index, number and board position, as check\_logic
  reads it off the keys: the cluster items and the dictionary built from them.
\<close>

definition tile_items :: "(nat \<times> nat \<times> (int \<times> int)) list \<Rightarrow> item list" where
  "tile_items ts = map (\<lambda>t. (the (tile_image_path (fst t) (fst (snd t))), snd (snd t))) ts"

definition tile_number :: "nat \<times> nat \<times> (int \<times> int) \<Rightarrow> nat" where
  "tile_number t = fst (snd t)"

definition tile_color :: "nat \<times> nat \<times> (int \<times> int) \<Rightarrow> nat" where
  "tile_color t = fst t"

definition valid_tiles :: "(nat \<times> nat \<times> (int \<times> int)) list \<Rightarrow> bool" where
  "valid_tiles ts =
     (list_all (\<lambda>t. 1 \<le> tile_color t \<and> tile_color t \<le> 5 \<and> 1 \<le> tile_number t \<and> tile_number t \<le> 15) ts \<and>
      distinct (map (\<lambda>t. (tile_color t, tile_number t)) ts))"

text \<open>
  The two shapes of a legal meld in the words of the specification: a Group has one
  number and pairwise distinct colours, a Run has one colour and numbers that go up by
  one from tile to tile.
\<close>

definition spec_legal_group :: "(nat \<times> nat \<times> (int \<times> int)) list \<Rightarrow> bool" where
  "spec_legal_group ts =
     (list_all (\<lambda>t. tile_number t = tile_number (hd ts)) ts \<and> distinct (map tile_color ts))"

definition spec_legal_run :: "(nat \<times> nat \<times> (int \<times> int)) list \<Rightarrow> bool" where
  "spec_legal_run ts =
     (list_all (\<lambda>t. tile_color t = tile_color (hd ts)) ts \<and>
      successively (\<lambda>a b. b = a + 1) (map tile_number ts))"

text \<open>The shapes that the test of update\_values works with.\<close>

definition step2_run :: "(nat \<times> nat \<times> (int \<times> int)) list \<Rightarrow> bool" where
  "step2_run ts =
     (list_all (\<lambda>t. tile_color t = tile_color (hd ts)) ts \<and>
      successively (\<lambda>a b. b = a + 2) (map tile_number ts))"

definition one_number :: "(nat \<times> nat \<times> (int \<times> int)) list \<Rightarrow> bool" where
  "one_number ts = list_all (\<lambda>t. tile_number t = tile_number (hd ts)) ts"

definition parity_increasing :: "(nat \<times> nat \<times> (int \<times> int)) list \<Rightarrow> bool" where
  "parity_increasing ts =
     ((list_all (\<lambda>t. even (tile_number t)) ts \<or> list_all (\<lambda>t. odd (tile_number t)) ts) \<and>
      successively (<) (map tile_number ts))"

section \<open>update\_blit\<close>

text \<open>
  Lines 1318-1336: the game-over test and the banner text; \<open>display_object\<close> collects
  the rects of the game objects only while the game is not over.
\<close>

definition update_blit :: "game \<Rightarrow> string option \<times> (string \<times> rect) list" where
  "update_blit s =
     (if length (PLAYER_2 s) = 0 \<or> length (PLAYER_1 s) = 0 then
        (Some (if length (PLAYER_1 s) = 0 then ''PLAYER 1 WINS'' else ''PLAYER 2 WINS''), [])
      else (None, game_object_database s))"

section \<open>The opponent: play\_ai\_turn and add\_tile\_to\_ai\<close>

text \<open>
  Random numbers are an input: every call of \<^verbatim>\<open>random.randint(a, b)\<close> consumes one natural
  number \<open>r\<close> and returns \<open>a + r mod (b - a + 1)\<close>; it raises ValueError on an empty range.
  A loop that draws until it finds a free tile is given the list of its draws; the result
  is \<open>None\<close> when an exception is raised or when the draws run out before the loop ends.
\<close>

definition randint :: "int \<Rightarrow> int \<Rightarrow> nat \<Rightarrow> int option" where
  "randint a b r = (if b < a then None else Some (a + int r mod (b - a + 1)))"

text \<open>
  One round of the \<^verbatim>\<open>while True\<close> loop of add\_tile\_to\_ai (lines 591-610) per pair of
  random numbers. The second test of the loop body holds whenever the first fails.
\<close>

fun add_tile_to_ai_loop :: "config \<Rightarrow> game \<Rightarrow> (nat \<times> nat) list \<Rightarrow> string option" where
  "add_tile_to_ai_loop cfg s [] = None"
| "add_tile_to_ai_loop cfg s ((r1, r2) # draws) =
     (case randint 1 (int (length (TILES_IMAGES_PATHS cfg)) - 1) r1 of None \<Rightarrow> None
      | Some c \<Rightarrow>
         (case py_nth (TILES_IMAGES_PATHS cfg) 0 of None \<Rightarrow> None
          | Some row0 \<Rightarrow>
             (case randint 1 (int (length row0)) r2 of None \<Rightarrow> None
              | Some n \<Rightarrow>
                 (case tile_image_path (nat c) (nat n) of None \<Rightarrow> None
                  | Some path \<Rightarrow>
                     if path \<in> set (keys (game_object_database s)) \<or>
                        path \<in> set (keys (PLAYER_2 s)) \<or>
                        path \<in> set (keys (PLAYER_1 s))
                     then add_tile_to_ai_loop cfg s draws
                     else Some path))))"

text \<open>
  Lines 612-615. \<^verbatim>\<open>load_image\<close> with coordinates (0, 0) also records the new tile in the
  image database; the rack entry is the loaded image with its own rect at (0, 0).
\<close>

definition add_tile_to_ai :: "config \<Rightarrow> game \<Rightarrow> (nat \<times> nat) list \<Rightarrow> game option" where
  "add_tile_to_ai cfg s draws =
     (case add_tile_to_ai_loop cfg s draws of None \<Rightarrow> None
      | Some path \<Rightarrow>
         if path \<notin> set (keys (PLAYER_2 s)) \<and> path \<notin> set (keys (PLAYER_1 s)) \<and>
            path \<notin> set (keys (game_object_database s))
         then Some (s\<lparr>image_database := AList.update path (0, 0) (image_database s),
                      PLAYER_2 := AList.update path
                         (Rect 0 0 (fst (TILE_IMAGE_SIZE cfg)) (snd (TILE_IMAGE_SIZE cfg))) (PLAYER_2 s)\<rparr>)
         else Some s)"

type_synonym ai_item = "string \<times> (string \<times> string \<times> rect)"

text \<open>Lines 634-641: card number and colour of every tile of the opponent's rack.\<close>

definition card_number_ai :: "(string \<times> rect) list \<Rightarrow> ai_item list" where
  "card_number_ai p2 =
     foldl (\<lambda>d kv. AList.update (fst kv) (fst (parse_card (fst kv)), snd (parse_card (fst kv)), snd kv) d)
       [] p2"

definition ai_card :: "ai_item \<Rightarrow> string" where
  "ai_card item = fst (snd item)"

definition ai_color :: "ai_item \<Rightarrow> string" where
  "ai_color item = fst (snd (snd item))"

text \<open>\<^verbatim>\<open>int(item[1][0])\<close>, used once the split into odd and even has parsed every card.\<close>

definition ai_number :: "ai_item \<Rightarrow> int" where
  "ai_number item = (case py_int (ai_card item) of None \<Rightarrow> 0 | Some n \<Rightarrow> n)"

text \<open>Lines 643-650: \<open>(odd_sequence, even_sequence)\<close>; \<open>int\<close> raises on a card that is no number.\<close>

fun split_parity :: "ai_item list \<Rightarrow> (ai_item list \<times> ai_item list) option" where
  "split_parity [] = Some ([], [])"
| "split_parity (item # rest) =
     (case py_int (ai_card item) of None \<Rightarrow> None
      | Some n \<Rightarrow>
         (case split_parity rest of None \<Rightarrow> None
          | Some (odd_sequence, even_sequence) \<Rightarrow>
             if n mod 2 = 0 then Some (odd_sequence, item # even_sequence)
             else Some (item # odd_sequence, even_sequence)))"

text \<open>Lines 652-664: group by colour in order of first appearance, each group sorted by number.\<close>

definition group_tiles_by_integer :: "ai_item list \<Rightarrow> (string \<times> ai_item list) list" where
  "group_tiles_by_integer tile_list =
     map (\<lambda>g. (fst g, sort_key ai_number (snd g)))
       (foldl (\<lambda>grouped_tiles tile. setdefault_append (ai_color tile) tile grouped_tiles) [] tile_list)"

text \<open>Lines 666-670: \<open>(grouped_by_even_seq, grouped_by_odd_seq)\<close>.\<close>

definition ai_groups :: "(string \<times> rect) list \<Rightarrow>
    ((string \<times> ai_item list) list \<times> (string \<times> ai_item list) list) option" where
  "ai_groups p2 =
     (case split_parity (card_number_ai p2) of None \<Rightarrow> None
      | Some (odd_sequence, even_sequence) \<Rightarrow>
          Some (group_tiles_by_integer (sort_key (\<lambda>item. (ai_color item, ai_number item)) even_sequence),
                group_tiles_by_integer (sort_key (\<lambda>item. (ai_color item, ai_number item)) odd_sequence)))"

text \<open>Lines 672-681; \<^verbatim>\<open>remove\<close> raises ValueError for a cell that is not in the list.\<close>

fun remove_occupied :: "config \<Rightarrow> (string \<times> (int \<times> int)) list \<Rightarrow> (int \<times> int) list \<Rightarrow> (int \<times> int) list option" where
  "remove_occupied cfg [] empty_spaces = Some empty_spaces"
| "remove_occupied cfg ((o_k, o_v) # rest) empty_spaces =
     (if contains ''1-15'' o_k \<and>
         in_range (fst o_v) (fst (BIG_BOX_POSITION cfg)) (fst (BIG_BOX_POSITION cfg) + BIG_BOX_WIDTH cfg) \<and>
         in_range (snd o_v) (snd (BIG_BOX_POSITION cfg)) (snd (BIG_BOX_POSITION cfg) + BIG_BOX_HEIGHT cfg)
      then (if (snd o_v, fst o_v) \<in> set empty_spaces
            then remove_occupied cfg rest (remove1 (snd o_v, fst o_v) empty_spaces) else None)
      else remove_occupied cfg rest empty_spaces)"

definition calculate_empty_spaces :: "config \<Rightarrow> game \<Rightarrow> (int \<times> int) list option" where
  "calculate_empty_spaces cfg s =
     remove_occupied cfg (image_database s)
       (concat (map (\<lambda>coordinate_x. map (\<lambda>coordinate_y. (coordinate_x, coordinate_y))
                   (range_step (fst (BIG_BOX_POSITION cfg)) (fst (BIG_BOX_POSITION cfg) + BIG_BOX_WIDTH cfg) 52))
          (range_step (snd (BIG_BOX_POSITION cfg)) (snd (BIG_BOX_POSITION cfg) + BIG_BOX_HEIGHT cfg) 73)))"

text \<open>Lines 684-693: the loop that fills \<open>start_position\<close>; the counter \<open>cnt\<close> (\<open>count\<close>) is never reset.\<close>

fun start_loop :: "(int \<times> int) list \<Rightarrow> nat \<Rightarrow> (int \<times> int) list \<Rightarrow> (int \<times> int) list" where
  "start_loop (a # b # rest) cnt start_position =
     (if fst a = fst b \<and> snd a + 52 = snd b then
        (if Suc cnt = 5 then start_position @ [a]
         else start_loop (b # rest) (Suc cnt) (start_position @ [a]))
      else start_loop (b # rest) cnt [])"
| "start_loop _ cnt start_position = start_position"

text \<open>
  Lines 708-718: the tiles of one group are put side by side; each becomes a game object
  with a committed position. The rect is the one of the rack entry.
\<close>

fun place_group :: "ai_item list \<Rightarrow> int \<Rightarrow> int \<Rightarrow> game \<Rightarrow> int \<times> game" where
  "place_group [] c_x c_y s = (c_x, s)"
| "place_group (v # rest) c_x c_y s =
     place_group rest (c_x + 52) c_y
       (s\<lparr>PLAYER_2 := AList.map_entry (fst v) (\<lambda>r. set_xy r c_x c_y) (PLAYER_2 s),
          game_object_database :=
            AList.update (fst v) (set_xy (snd (snd (snd v))) c_x c_y) (game_object_database s),
          image_database := AList.update (fst v) (c_x, c_y) (image_database s)\<rparr>)"

definition playable :: "ai_item list \<Rightarrow> bool" where
  "playable value = (3 \<le> length value \<and> length value < 6)"

text \<open>
  Lines 705-719 and 721-734: the result is \<open>c_x\<close>, the state, \<open>keys_to_delete\<close> and the
  flag \<open>is_not_playable\<close> of the sequence.
\<close>

fun place_groups :: "(string \<times> ai_item list) list \<Rightarrow> int \<Rightarrow> int \<Rightarrow> game \<Rightarrow> string list \<Rightarrow> bool \<Rightarrow>
    int \<times> game \<times> string list \<times> bool" where
  "place_groups [] c_x c_y s keys_to_delete is_not_playable = (c_x, s, keys_to_delete, is_not_playable)"
| "place_groups ((key, value) # rest) c_x c_y s keys_to_delete is_not_playable =
     (if playable value then
        (case place_group value c_x c_y s of
           (c_x', s') \<Rightarrow> place_groups rest (c_x' + 52) c_y s' (keys_to_delete @ map fst value) False)
      else place_groups rest c_x c_y s keys_to_delete is_not_playable)"

text \<open>
  play\_ai\_turn; \<^verbatim>\<open>start_position[0]\<close> raises IndexError on an empty list. Both calls in
  the program pass \<^verbatim>\<open>is_delete=True\<close>. The closing update\_blit changes no state.
\<close>

definition play_ai_turn :: "config \<Rightarrow> bool \<Rightarrow> game \<Rightarrow> (nat \<times> nat) list \<Rightarrow> game option" where
  "play_ai_turn cfg is_delete s draws =
     (case ai_groups (PLAYER_2 s) of None \<Rightarrow> None
      | Some (grouped_by_even_seq, grouped_by_odd_seq) \<Rightarrow>
         (case calculate_empty_spaces cfg s of None \<Rightarrow> None
          | Some empty_space \<Rightarrow>
             (case start_loop empty_space 0 [] of [] \<Rightarrow> None
              | start0 # _ \<Rightarrow>
                 (let c_x = (if snd start0 \<noteq> fst (BIG_BOX_POSITION cfg) then snd start0 + 52 else snd start0);
                      c_y = fst start0
                  in case place_groups grouped_by_even_seq c_x c_y s [] True of
                       (c_x1, s1, keys1, is_not_playable_even) \<Rightarrow>
                         (case place_groups grouped_by_odd_seq c_x1 c_y s1 keys1 True of
                            (c_x2, s2, keys_to_delete, is_not_playable_odd) \<Rightarrow>
                              (let s3 = (if is_delete
                                         then s2\<lparr>PLAYER_2 := filter (\<lambda>kv. fst kv \<notin> set keys_to_delete) (PLAYER_2 s2)\<rparr>
                                         else s2)
                               in if is_not_playable_even \<and> is_not_playable_odd
                                  then add_tile_to_ai cfg s3 draws else Some s3))))))"

text \<open>The groups that play\_ai\_turn puts on the board: those of three to five tiles.\<close>

definition played_melds :: "(string \<times> rect) list \<Rightarrow> ai_item list list option" where
  "played_melds p2 =
     (case ai_groups p2 of None \<Rightarrow> None
      | Some (grouped_by_even_seq, grouped_by_odd_seq) \<Rightarrow>
          Some (filter playable (map snd grouped_by_even_seq) @ filter playable (map snd grouped_by_odd_seq)))"

text \<open>
  The shape of a group that play\_ai\_turn puts down: three to five tiles of one colour
  and one parity, in ascending order of their numbers.
\<close>

definition parity_meld :: "ai_item list \<Rightarrow> bool" where
  "parity_meld m =
     (3 \<le> length m \<and> length m \<le> 5 \<and>
      list_all (\<lambda>item. ai_color item = ai_color (hd m)) m \<and>
      (list_all (\<lambda>item. even (ai_number item)) m \<or> list_all (\<lambda>item. odd (ai_number item)) m) \<and>
      sorted (map ai_number m))"

text \<open>
  The run of the specification's heuristic: the numbers go up by exactly two from tile
  to tile.
\<close>

definition spec_step2 :: "ai_item list \<Rightarrow> bool" where
  "spec_step2 m = successively (\<lambda>a b. b = a + 2) (map ai_number m)"

text \<open>
  The specification's test for a playable run on a rack: three tiles of one colour
  with numbers \<open>n\<close>, \<open>n + 2\<close>, \<open>n + 4\<close>.
\<close>

definition spec_has_run :: "(string \<times> rect) list \<Rightarrow> bool" where
  "spec_has_run p2 =
     (let tiles = map (\<lambda>item. (ai_color item, ai_number item)) (card_number_ai p2)
      in list_ex (\<lambda>t. (fst t, snd t + 2) \<in> set tiles \<and> (fst t, snd t + 4) \<in> set tiles) tiles)"

text \<open>Every group of the dictionary holds tiles of the colour it is filed under.\<close>

definition color_grouped :: "(string \<times> ai_item list) list \<Rightarrow> bool" where
  "color_grouped d = (\<forall>g \<in> set d. \<forall>item \<in> set (snd g). ai_color item = fst g)"

text \<open>
  The tile key that a pair of random numbers names in the loop of add\_tile\_to\_ai
  (lines 592-602), and the test of lines 604-606 for a key that is taken.
\<close>

definition draw_key :: "config \<Rightarrow> nat \<times> nat \<Rightarrow> string option" where
  "draw_key cfg d =
     (case randint 1 (int (length (TILES_IMAGES_PATHS cfg)) - 1) (fst d) of None \<Rightarrow> None
      | Some c \<Rightarrow>
         (case py_nth (TILES_IMAGES_PATHS cfg) 0 of None \<Rightarrow> None
          | Some row0 \<Rightarrow>
             (case randint 1 (int (length row0)) (snd d) of None \<Rightarrow> None
              | Some n \<Rightarrow> tile_image_path (nat c) (nat n))))"

definition in_use :: "game \<Rightarrow> string \<Rightarrow> bool" where
  "in_use s key =
     (key \<in> set (keys (game_object_database s)) \<or> key \<in> set (keys (PLAYER_2 s)) \<or>
      key \<in> set (keys (PLAYER_1 s)))"

text \<open>The loop of add\_tile\_to\_ai ends at a pair of random numbers that names a free tile.\<close>

definition names_free_tile :: "config \<Rightarrow> game \<Rightarrow> nat \<times> nat \<Rightarrow> bool" where
  "names_free_tile cfg s d = (case draw_key cfg d of None \<Rightarrow> False | Some key \<Rightarrow> \<not> in_use s key)"

text \<open>
  A table of tile images for which every draw of add\_tile\_to\_ai names a tile: a first
  row that is not empty, and one to five rows more, one per colour of \<open>color\<close>.
\<close>

definition table_ok :: "config \<Rightarrow> bool" where
  "table_ok cfg =
     (2 \<le> length (TILES_IMAGES_PATHS cfg) \<and> length (TILES_IMAGES_PATHS cfg) \<le> 6 \<and>
      hd (TILES_IMAGES_PATHS cfg) \<noteq> [])"

text \<open>
  play\_ai\_turn finds a cell to start from: the free cells can be listed and
  \<open>start_position\<close> is not empty when the search loop (lines 684-693) ends, so that
  \<^verbatim>\<open>start_position[0]\<close> exists.
\<close>

definition has_start :: "config \<Rightarrow> game \<Rightarrow> bool" where
  "has_start cfg s =
     (case calculate_empty_spaces cfg s of None \<Rightarrow> False
      | Some empty_space \<Rightarrow> start_loop empty_space 0 [] \<noteq> [])"

text \<open>check\_logic as a whole (lines 945-994): the validation pass, then the opponent's turn.\<close>

definition check_logic :: "config \<Rightarrow> game \<Rightarrow> (nat \<times> nat) list \<Rightarrow> game option" where
  "check_logic cfg s draws =
     (case validate cfg s of None \<Rightarrow> None
      | Some (ai_turn, s') \<Rightarrow> if ai_turn then play_ai_turn cfg True s' draws else Some s')"

section \<open>The human player's operations\<close>

subsection \<open>add\_tile\_to\_rack\<close>

text \<open>
  One round of the \<^verbatim>\<open>while True\<close> loop (lines 448-470) per pair of random numbers; the
  result is the free tile key, \<open>new_tile_position\<close> and the random numbers left over.
  \<open>last_rect\<close> is the rect of the last rack entry.
\<close>

fun add_tile_to_rack_loop :: "config \<Rightarrow> int \<times> int \<Rightarrow> rect \<Rightarrow> game \<Rightarrow> int \<times> int \<Rightarrow> (nat \<times> nat) list \<Rightarrow>
    (string \<times> (int \<times> int) \<times> (nat \<times> nat) list) option" where
  "add_tile_to_rack_loop cfg rack_size last_rect s new_tile_position [] = None"
| "add_tile_to_rack_loop cfg rack_size last_rect s new_tile_position ((r1, r2) # draws) =
     (case randint 1 (int (length (TILES_IMAGES_PATHS cfg)) - 1) r1 of None \<Rightarrow> None
      | Some c \<Rightarrow>
         (case py_nth (TILES_IMAGES_PATHS cfg) 0 of None \<Rightarrow> None
          | Some row0 \<Rightarrow>
             (case randint 1 (int (length row0)) r2 of None \<Rightarrow> None
              | Some n \<Rightarrow>
                 (case tile_image_path (nat c) (nat n) of None \<Rightarrow> None
                  | Some path \<Rightarrow>
                     (case (if fst new_tile_position > fst rack_size + 273
                            then (case map_of (game_object_database s) ''brown_rack_image_tile1'' of
                                    None \<Rightarrow> None
                                  | Some rack1 \<Rightarrow> Some (rx rack1 + 10, ry last_rect + snd rack_size))
                            else Some new_tile_position) of
                        None \<Rightarrow> None
                      | Some position \<Rightarrow>
                          if path \<in> set (IMG_PATHS s) \<or> path \<in> set (keys (PLAYER_2 s)) \<or>
                             path \<in> set (keys (game_object_database s))
                          then add_tile_to_rack_loop cfg rack_size last_rect s position draws
                          else Some (path, position, draws))))))"

text \<open>
  add\_tile\_to\_rack (lines 438-489). \<^verbatim>\<open>list(PLAYER_1.items())[-1]\<close> raises IndexError on
  an empty rack. The new rect is the rect of the loaded image moved to the new position;
  the rack entry shares it with the game object. The opponent's turn follows.
\<close>

definition add_tile_to_rack :: "config \<Rightarrow> int \<times> int \<Rightarrow> game \<Rightarrow> (nat \<times> nat) list \<Rightarrow> game option" where
  "add_tile_to_rack cfg rack_size s draws =
     (case PLAYER_1 s of [] \<Rightarrow> None
      | _ # _ \<Rightarrow>
         (case p1_rect s (fst (last (PLAYER_1 s))) (snd (last (PLAYER_1 s))) of None \<Rightarrow> None
          | Some last_rect \<Rightarrow>
             (case add_tile_to_rack_loop cfg rack_size last_rect s
                     (rx last_rect + 52 + 10, ry last_rect) draws of
                None \<Rightarrow> None
              | Some (path, new_tile_position, draws') \<Rightarrow>
                 (let is_satisfied =
                        (fst new_tile_position < fst rack_size + 273 \<and>
                         path \<notin> set (keys (PLAYER_2 s)) \<and> path \<notin> set (IMG_PATHS s) \<and>
                         path \<notin> set (keys (game_object_database s)) \<and>
                         snd new_tile_position < snd new_tile_position + snd rack_size * 2)
                  in if is_satisfied then
                       play_ai_turn cfg True
                         (s\<lparr>image_database := AList.update path new_tile_position (image_database s),
                            IMG_PATHS := IMG_PATHS s @ [path],
                            game_object_database :=
                              AList.update path
                                (Rect (fst new_tile_position) (snd new_tile_position)
                                   (fst (TILE_IMAGE_SIZE cfg)) (snd (TILE_IMAGE_SIZE cfg)))
                                (game_object_database s),
                            PLAYER_1 := AList.update path Shared (PLAYER_1 s)\<rparr>)
                         draws'
                     else Some s))))"

subsection \<open>Dragging a tile\<close>

text \<open>
  The end of a drag in move\_tiles (lines 1009-1047) for a tile under the mouse:
  \<^verbatim>\<open>self.game_object_database[key]\<close> raises KeyError for a key that is no game object;
  the rect of the dragged tile, which follows the mouse, ends at the position of the rect
  that \<open>snap_to_grid\<close>, a function of the absent module draw\_grids, returns. The
  dictionary \<open>CURRENT_POSITION\<close> that move\_tiles also fills is read nowhere else and
  is left out.
\<close>

definition move_tile :: "string \<Rightarrow> int \<Rightarrow> int \<Rightarrow> game \<Rightarrow> game option" where
  "move_tile key x y s =
     (if key \<in> set (keys (game_object_database s))
      then Some (s\<lparr>game_object_database :=
                     AList.map_entry key (\<lambda>r. set_xy r x y) (game_object_database s)\<rparr>)
      else None)"

subsection \<open>play\_for\_me\<close>

text \<open>
  set\_tile\_position (lines 1098-1105): every subscript and the \<^verbatim>\<open>del\<close> raise KeyError
  for a key that the dictionary does not hold.
\<close>

definition set_tile_position :: "string \<Rightarrow> int \<Rightarrow> int \<Rightarrow> game \<Rightarrow> game option" where
  "set_tile_position key pos_x pos_y s =
     (if key \<in> set (keys (game_object_database s)) \<and> key \<in> set (keys (image_database s)) \<and>
         key \<in> set (keys (PLAYER_1 s))
      then Some (s\<lparr>game_object_database :=
                     AList.map_entry key (\<lambda>r. set_xy r pos_x pos_y) (game_object_database s),
                   image_database := AList.map_entry key (\<lambda>_. (pos_x, pos_y)) (image_database s),
                   PLAYER_1 := AList.delete key (PLAYER_1 s)\<rparr>)
      else None)"

fun place_keys :: "string list \<Rightarrow> int \<Rightarrow> int \<Rightarrow> game \<Rightarrow> (int \<times> game) option" where
  "place_keys [] c_x c_y s = Some (c_x, s)"
| "place_keys (key # rest) c_x c_y s =
     (case set_tile_position key c_x c_y s of None \<Rightarrow> None
      | Some s' \<Rightarrow> place_keys rest (c_x + 52) c_y s')"

text \<open>Lines 1107-1112.\<close>

fun place_rack_groups :: "string list list \<Rightarrow> int \<Rightarrow> int \<Rightarrow> game \<Rightarrow> (int \<times> game) option" where
  "place_rack_groups [] c_x c_y s = Some (c_x, s)"
| "place_rack_groups (grp # rest) c_x c_y s =
     (if 3 \<le> length grp \<and> length grp < 6 then
        (case place_keys grp c_x c_y s of None \<Rightarrow> None
         | Some (c_x', s') \<Rightarrow> place_rack_groups rest (c_x' + 52) c_y s')
      else place_rack_groups rest c_x c_y s)"

text \<open>
  Lines 1114-1122. With a non-empty \<open>groups\<close> the test reaches
  \<^verbatim>\<open>all(run_key not in groups)\<close>, the call of \<open>all\<close> on a truth value, which raises
  TypeError; both branches of the test do the same.
\<close>

fun place_rack_runs :: "string list list \<Rightarrow> string list list \<Rightarrow> int \<Rightarrow> int \<Rightarrow> game \<Rightarrow> (int \<times> game) option" where
  "place_rack_runs groups [] c_x c_y s = Some (c_x, s)"
| "place_rack_runs groups (run # rest) c_x c_y s =
     (if 3 \<le> length run \<and> length run < 6 then
        (if run \<noteq> [] \<and> length groups > 0 then None
         else (case place_keys run c_x c_y s of None \<Rightarrow> None
               | Some (c_x', s') \<Rightarrow> place_rack_runs groups rest (c_x' + 52) c_y s'))
      else place_rack_runs groups rest c_x c_y s)"

text \<open>
  The placing part of play\_for\_me (lines 1098-1122), given the groups and runs that
  identify\_rummikub\_groups and identify\_rummikub\_runs found on the rack and the
  starting cell.
\<close>

definition play_for_me_place :: "string list list \<Rightarrow> string list list \<Rightarrow> int \<Rightarrow> int \<Rightarrow> game \<Rightarrow> game option" where
  "play_for_me_place groups runs c_x c_y s =
     (case place_rack_groups groups c_x c_y s of None \<Rightarrow> None
      | Some (c_x', s') \<Rightarrow> map_option snd (place_rack_runs groups runs (c_x' + 52) c_y s'))"

subsection \<open>Rearranging the rack\<close>

text \<open>
  \<^verbatim>\<open>re.search(r'_(\d+).png', filename)\<close> at the start of a string: an underscore, as
  many digits as possible but at least one, any character but a newline, and \<open>png\<close>;
  on failure the regular expression gives digits back one by one.
\<close>

fun match_digits :: "nat \<Rightarrow> string \<Rightarrow> int option" where
  "match_digits 0 rest = None"
| "match_digits (Suc k) rest =
     (case drop (Suc k) rest of
        c # p # n # g # _ \<Rightarrow>
          if c \<noteq> CHR 0x0A \<and> [p, n, g] = ''png'' then py_int (take (Suc k) rest)
          else match_digits k rest
      | _ \<Rightarrow> match_digits k rest)"

definition match_here :: "string \<Rightarrow> int option" where
  "match_here s =
     (case s of [] \<Rightarrow> None
      | c # rest \<Rightarrow>
          if c = CHR ''_'' then match_digits (length (takeWhile is_digit_char rest)) rest else None)"

text \<open>extract\_last\_number\_from\_filename (lines 87-100): the leftmost match, or 0.\<close>

fun extract_last_number_from_filename :: "string \<Rightarrow> int" where
  "extract_last_number_from_filename [] = 0"
| "extract_last_number_from_filename (c # rest) =
     (case match_here (c # rest) of Some n \<Rightarrow> n
      | None \<Rightarrow> extract_last_number_from_filename rest)"

text \<open>
  A tile gets a new rect at \<open>(c_x, c_y)\<close> in the game object database and a new
  entry in the image database (lines 512-514, 521-523, 556-558, 566-568). The rack entry
  keeps the rect it had. The size of the tile surfaces, which a function of the absent
  module surface\_info builds, is a parameter.
\<close>

definition reposition :: "int \<times> int \<Rightarrow> string \<Rightarrow> int \<Rightarrow> int \<Rightarrow> game \<Rightarrow> game option" where
  "reposition tile_size key c_x c_y s =
     (case map_of (PLAYER_1 s) key of
        Some Shared \<Rightarrow>
          (case map_of (game_object_database s) key of None \<Rightarrow> None
           | Some old \<Rightarrow>
               Some (s\<lparr>PLAYER_1 := AList.map_entry key (\<lambda>_. Own old) (PLAYER_1 s),
                      game_object_database :=
                        AList.update key (Rect c_x c_y (fst tile_size) (snd tile_size)) (game_object_database s),
                      image_database := AList.update key (c_x, c_y) (image_database s)\<rparr>))
      | _ \<Rightarrow>
          Some (s\<lparr>game_object_database :=
                     AList.update key (Rect c_x c_y (fst tile_size) (snd tile_size)) (game_object_database s),
                   image_database := AList.update key (c_x, c_y) (image_database s)\<rparr>))"

text \<open>The tiles of a group or of the sorted runs, side by side; a key must be a game object.\<close>

fun reposition_keys :: "int \<times> int \<Rightarrow> string list \<Rightarrow> int \<Rightarrow> int \<Rightarrow> game \<Rightarrow> (int \<times> game) option" where
  "reposition_keys tile_size [] c_x c_y s = Some (c_x, s)"
| "reposition_keys tile_size (key # rest) c_x c_y s =
     (if key \<in> set (keys (game_object_database s)) then
        (case reposition tile_size key c_x c_y s of None \<Rightarrow> None
         | Some s' \<Rightarrow> reposition_keys tile_size rest (c_x + fst tile_size + 10) c_y s')
      else None)"

fun reposition_groups :: "int \<times> int \<Rightarrow> string list list \<Rightarrow> int \<Rightarrow> int \<Rightarrow> game \<Rightarrow> (int \<times> game) option" where
  "reposition_groups tile_size [] c_x c_y s = Some (c_x, s)"
| "reposition_groups tile_size (grp # rest) c_x c_y s =
     (case reposition_keys tile_size grp c_x c_y s of None \<Rightarrow> None
      | Some (c_x', s') \<Rightarrow> reposition_groups tile_size rest c_x' c_y s')"

text \<open>
  The loop over the rack for the tiles that are in no group or run (lines 519-528,
  564-573), wrapping to the next row at the end of the rack.
\<close>

fun reposition_others :: "int \<times> int \<Rightarrow> int \<times> int \<Rightarrow> int \<Rightarrow> string list \<Rightarrow> string list \<Rightarrow> int \<Rightarrow> int \<Rightarrow> game \<Rightarrow> game option" where
  "reposition_others tile_size rack_coordinates rack_width taken [] c_x c_y s = Some s"
| "reposition_others tile_size rack_coordinates rack_width taken (key # rest) c_x c_y s =
     (if contains ''images/tiles/1-15'' key \<and> key \<notin> set taken then
        (case reposition tile_size key c_x c_y s of None \<Rightarrow> None
         | Some s' \<Rightarrow>
            (let c_x1 = c_x + fst tile_size + 10 in
             if c_x1 + fst tile_size > fst rack_coordinates + rack_width
             then reposition_others tile_size rack_coordinates rack_width taken rest
                    (fst rack_coordinates + 5) (c_y + snd tile_size + 10) s'
             else reposition_others tile_size rack_coordinates rack_width taken rest c_x1 c_y s'))
      else reposition_others tile_size rack_coordinates rack_width taken rest c_x c_y s)"

text \<open>
  rearrange\_tiles\_by\_groups (lines 504-528); the rack's corner and width, which
  get\_game\_object computes from constants of the absent modules, are parameters.
\<close>

definition rearrange_tiles_by_groups :: "int \<times> int \<Rightarrow> int \<times> int \<Rightarrow> int \<Rightarrow> string list list \<Rightarrow> game \<Rightarrow> game option" where
  "rearrange_tiles_by_groups tile_size rack_coordinates rack_width groups s =
     (case (if groups \<noteq> []
            then reposition_groups tile_size groups (fst rack_coordinates + 5) (snd rack_coordinates) s
            else Some (fst rack_coordinates + 5, s)) of
        None \<Rightarrow> None
      | Some (c_x, s') \<Rightarrow>
          reposition_others tile_size rack_coordinates rack_width (concat groups) (keys (PLAYER_1 s'))
            c_x (snd rack_coordinates) s')"

text \<open>rearrange\_tiles\_by\_runs (lines 546-573): nothing happens without runs.\<close>

definition rearrange_tiles_by_runs :: "int \<times> int \<Rightarrow> int \<times> int \<Rightarrow> int \<Rightarrow> string list list \<Rightarrow> game \<Rightarrow> game option" where
  "rearrange_tiles_by_runs tile_size rack_coordinates rack_width runs s =
     (if runs \<noteq> [] then
        (let sorted_runs = sort_key extract_last_number_from_filename (concat runs) in
         case reposition_keys tile_size sorted_runs (fst rack_coordinates + 5) (snd rack_coordinates) s of
           None \<Rightarrow> None
         | Some (c_x, s') \<Rightarrow>
             reposition_others tile_size rack_coordinates rack_width sorted_runs (keys (PLAYER_1 s'))
               c_x (snd rack_coordinates) s')
      else Some s)"

section \<open>The initial deal: draw\_initial\_tiles\<close>

text \<open>
  The \<^verbatim>\<open>while len(players) != 15\<close> loop for one rack (lines 376-387), one round per pair
  of random numbers; the result is the rack, \<open>random_tile_temp\<close> and the random numbers
  left over. \<^verbatim>\<open>tile_image_list[random_tile[0]][random_tile[1]]\<close> raises IndexError out of
  range. \<^verbatim>\<open>load_image(tile_image_path)\<close> returns the image with its rect at (0, 0); the
  rack is a dictionary, so a path that it already holds adds no entry.
\<close>

fun draw_player :: "string list list \<Rightarrow> rect \<Rightarrow> (string \<times> rect) list \<Rightarrow> string list \<Rightarrow>
    (nat \<times> nat) list \<Rightarrow> ((string \<times> rect) list \<times> string list \<times> (nat \<times> nat) list) option" where
  "draw_player tile_image_list r players random_tile_temp [] =
     (if length players = 15 then Some (players, random_tile_temp, []) else None)"
| "draw_player tile_image_list r players random_tile_temp ((r1, r2) # draws) =
     (if length players = 15 then Some (players, random_tile_temp, (r1, r2) # draws)
      else
        (case randint 0 (int (length tile_image_list) - 1) r1 of None \<Rightarrow> None
         | Some i \<Rightarrow>
            (case py_nth tile_image_list 0 of None \<Rightarrow> None
             | Some row0 \<Rightarrow>
                (case randint 1 (int (length row0)) r2 of None \<Rightarrow> None
                 | Some j \<Rightarrow>
                    (let is_present = str (nat i) @ str (nat j) in
                     if is_present \<notin> set random_tile_temp then
                       (case py_nth tile_image_list i of None \<Rightarrow> None
                        | Some row \<Rightarrow>
                           (case py_nth row j of None \<Rightarrow> None
                            | Some path \<Rightarrow>
                                draw_player tile_image_list r (AList.update path r players)
                                  (random_tile_temp @ [is_present]) draws))
                     else draw_player tile_image_list r players random_tile_temp draws)))))"

text \<open>The loop over \<open>players_database\<close>; \<open>random_tile_temp\<close> is shared by all racks.\<close>

fun draw_players :: "string list list \<Rightarrow> rect \<Rightarrow> (string \<times> rect) list list \<Rightarrow> string list \<Rightarrow>
    (nat \<times> nat) list \<Rightarrow> (string \<times> rect) list list option" where
  "draw_players tile_image_list r [] random_tile_temp draws = Some []"
| "draw_players tile_image_list r (players # rest) random_tile_temp draws =
     (case draw_player tile_image_list r players random_tile_temp draws of None \<Rightarrow> None
      | Some (players', temp', draws') \<Rightarrow>
         (case draw_players tile_image_list r rest temp' draws' of None \<Rightarrow> None
          | Some rest' \<Rightarrow> Some (players' # rest')))"

text \<open>draw\_initial\_tiles (lines 359-388) returns the racks.\<close>

definition draw_initial_tiles :: "config \<Rightarrow> string list list \<Rightarrow> (string \<times> rect) list list \<Rightarrow>
    (nat \<times> nat) list \<Rightarrow> (string \<times> rect) list list option" where
  "draw_initial_tiles cfg tile_image_list players_database draws =
     draw_players tile_image_list
       (Rect 0 0 (fst (TILE_IMAGE_SIZE cfg)) (snd (TILE_IMAGE_SIZE cfg))) players_database [] draws"

section \<open>The tile pool of the specification\<close>

datatype tile_colour = BLACK | BLUE | GREEN | RED | YELLOW

datatype pool_tile = Tile (colour_of: tile_colour) (number_of: nat) (instance_of: nat)

text \<open>
  Modelled from the spec: \<open>create_initial_pool\<close>, the creation of the tile pool
  (sections 3 and 4.1: ``produces two instances of every (color, number) combination,
  order-independent'', with colours BLACK, BLUE, GREEN, RED, YELLOW and numbers 1 to 15).
  The sources at hand hold no such function; they draw from the table
  \<open>TILES_IMAGES_PATHS\<close> of a module that is not among them. \<open>pool_list\<close> enumerates the
  combinations in the order of its arguments, the pool is the set of what it enumerates.
\<close>

definition pool_list :: "tile_colour list \<Rightarrow> nat list \<Rightarrow> nat list \<Rightarrow> pool_tile list" where
  "pool_list colours numbers instances =
     concat (map (\<lambda>c. concat (map (\<lambda>n. map (\<lambda>i. Tile c n i) instances) numbers)) colours)"

definition create_initial_pool :: "pool_tile set" where
  "create_initial_pool = set (pool_list [BLACK, BLUE, GREEN, RED, YELLOW] [1 ..< 16] [1, 2])"

section \<open>Positions and the snapshot\<close>

text \<open>
  The position of a tile is the corner of its rect in the game object database; the
  snapshot of a tile is its coordinate list in the image database, which only a commit
  (and the opponent's and the assistant's placements) overwrite.
\<close>

definition tile_at :: "game \<Rightarrow> string \<Rightarrow> (int \<times> int) option" where
  "tile_at s key = map_option (\<lambda>r. (rx r, ry r)) (map_of (game_object_database s) key)"

definition snapshot :: "game \<Rightarrow> string \<Rightarrow> (int \<times> int) option" where
  "snapshot s key = map_of (image_database s) key"

definition all_at_snapshot :: "game \<Rightarrow> bool" where
  "all_at_snapshot s =
     list_all (\<lambda>key. contains ''images/tiles/1-15'' key \<longrightarrow> tile_at s key = snapshot s key)
       (keys (game_object_database s))"

text \<open>
  What the program keeps true of its dictionaries: keys are distinct, the rack image is
  a game object, and a rack entry that shares its rect has a game object to share with.
\<close>

definition wf_game :: "game \<Rightarrow> bool" where
  "wf_game s =
     (distinct (keys (game_object_database s)) \<and>
      ''brown_rack_image_tile2'' \<in> set (keys (game_object_database s)) \<and>
      list_all (\<lambda>kv. snd kv = Shared \<longrightarrow> fst kv \<in> set (keys (game_object_database s))) (PLAYER_1 s))"

text \<open>A dictionary of check\_logic records, for each of its tiles, where the tile is now.\<close>

definition current :: "item_sum \<Rightarrow> game \<Rightarrow> bool" where
  "current check s = (\<forall>kv \<in> set check. tile_at s (fst kv) = Some (snd (snd (snd kv))))"

text \<open>
  The dictionaries that the loop of check\_logic collects in \<open>check_sum\<close> when every
  cluster has three to five tiles, and the keys of those that pass the meld test.
\<close>

definition check_sum_from :: "item_sum list \<Rightarrow> item list list \<Rightarrow> item_sum list" where
  "check_sum_from check_sum permutation_values =
     foldl (\<lambda>cs perm_values.
              if list_ex (dict_eq (card_number_of perm_values)) cs then cs
              else cs @ [card_number_of perm_values])
       check_sum permutation_values"

definition accepted_keys :: "item_sum list \<Rightarrow> string list" where
  "accepted_keys check_sum =
     concat (map keys (filter (\<lambda>check. meld_test (map snd check) = Some True) check_sum))"

section \<open>The tiles of the game\<close>









text \<open>
  The operations of the game, for any random numbers and any parameters: a drag; the
  validation pass of check\_logic with its rollbacks; the opponent's turn; a click on
  the button that draws a tile; the placing of play\_for\_me; a rearrangement of the
  rack. check\_logic is the validation pass, followed by the opponent's turn when the
  flag of the pass is set.
\<close>

datatype operation = Moving | Validating | Opponent | Drawing | Auto_playing | Rearranging

inductive step :: "config \<Rightarrow> operation \<Rightarrow> game \<Rightarrow> game \<Rightarrow> bool" for cfg :: config where
  moving: "move_tile key x y s = Some s' \<Longrightarrow> step cfg Moving s s'"
| validating: "validate cfg s = Some (ai_turn, s') \<Longrightarrow> step cfg Validating s s'"
| opponent: "play_ai_turn cfg True s draws = Some s' \<Longrightarrow> step cfg Opponent s s'"
| drawing: "add_tile_to_rack cfg rack_size s draws = Some s' \<Longrightarrow> step cfg Drawing s s'"
| auto_playing: "play_for_me_place groups runs c_x c_y s = Some s' \<Longrightarrow> step cfg Auto_playing s s'"
| rearranging_groups:
    "rearrange_tiles_by_groups tile_size rack_coordinates rack_width groups s = Some s' \<Longrightarrow>
     step cfg Rearranging s s'"
| rearranging_runs:
    "rearrange_tiles_by_runs tile_size rack_coordinates rack_width runs s = Some s' \<Longrightarrow>
     step cfg Rearranging s s'"


section \<open>Example boards\<close>

text \<open>
  A window of 1280 by 720 with a play area of twenty columns and five rows of 52 by 73
  cells whose corner is at (100, 50), and the upper rack at (290, 574).
\<close>

definition ex_cfg :: config where
  "ex_cfg = \<lparr>WINDOW_WIDTH = 1280, WINDOW_HEIGHT = 720, BIG_BOX = Rect 100 50 1040 365,
     BIG_BOX_POSITION = (100, 50), BIG_BOX_WIDTH = 1040, BIG_BOX_HEIGHT = 365,
     TILES_IMAGES_PATHS = replicate 6 (replicate 15 []), TILE_IMAGE_SIZE = (52, 73)\<rparr>"

text \<open>
  Six tiles of the human player, last committed on the rack and now dragged onto the
  board: the fives of BLACK, BLUE and GREEN side by side in the first row, and RED 1,
  RED 2, BLUE 4 side by side in the second row.
\<close>

definition ex_game :: game where
  "ex_game = \<lparr>game_object_database =
      [(''brown_rack_image_tile2'', Rect 290 574 700 73),
       (''images/tiles/1-15 BLACK/BLACK_1_5.png'', Rect 100 50 52 73),
       (''images/tiles/1-15 BLUE/BLUE_2_5.png'', Rect 152 50 52 73),
       (''images/tiles/1-15 GREEN/GREEN_3_5.png'', Rect 204 50 52 73),
       (''images/tiles/1-15 RED/RED_4_1.png'', Rect 100 123 52 73),
       (''images/tiles/1-15 RED/RED_4_2.png'', Rect 152 123 52 73),
       (''images/tiles/1-15 BLUE/BLUE_2_4.png'', Rect 204 123 52 73)],
     image_database =
      [(''brown_rack_image_tile2'', (290, 574)),
       (''images/tiles/1-15 BLACK/BLACK_1_5.png'', (295, 574)),
       (''images/tiles/1-15 BLUE/BLUE_2_5.png'', (357, 574)),
       (''images/tiles/1-15 GREEN/GREEN_3_5.png'', (419, 574)),
       (''images/tiles/1-15 RED/RED_4_1.png'', (481, 574)),
       (''images/tiles/1-15 RED/RED_4_2.png'', (543, 574)),
       (''images/tiles/1-15 BLUE/BLUE_2_4.png'', (605, 574))],
     PLAYER_1 =
      [(''images/tiles/1-15 BLACK/BLACK_1_5.png'', Shared),
       (''images/tiles/1-15 BLUE/BLUE_2_5.png'', Shared),
       (''images/tiles/1-15 GREEN/GREEN_3_5.png'', Shared),
       (''images/tiles/1-15 RED/RED_4_1.png'', Shared),
       (''images/tiles/1-15 RED/RED_4_2.png'', Shared),
       (''images/tiles/1-15 BLUE/BLUE_2_4.png'', Shared)],
     PLAYER_2 = [(''images/tiles/1-15 YELLOW/YELLOW_5_9.png'', Rect 0 0 52 73)],
     IMG_PATHS = []\<rparr>"

definition ex_fives :: "(nat \<times> nat \<times> (int \<times> int)) list" where
  "ex_fives = [(1, 5, (100, 50)), (2, 5, (152, 50)), (3, 5, (204, 50))]"

text \<open>
  Another board: BLACK 1, BLUE 3, GREEN 7 in the first row and RED 1, RED 2, RED 3 in
  the second.
\<close>

definition ex_game2 :: game where
  "ex_game2 = \<lparr>game_object_database =
      [(''brown_rack_image_tile2'', Rect 290 574 700 73),
       (''images/tiles/1-15 BLACK/BLACK_1_1.png'', Rect 100 50 52 73),
       (''images/tiles/1-15 BLUE/BLUE_2_3.png'', Rect 152 50 52 73),
       (''images/tiles/1-15 GREEN/GREEN_3_7.png'', Rect 204 50 52 73),
       (''images/tiles/1-15 RED/RED_4_1.png'', Rect 100 123 52 73),
       (''images/tiles/1-15 RED/RED_4_2.png'', Rect 152 123 52 73),
       (''images/tiles/1-15 RED/RED_4_3.png'', Rect 204 123 52 73)],
     image_database =
      [(''brown_rack_image_tile2'', (290, 574)),
       (''images/tiles/1-15 BLACK/BLACK_1_1.png'', (295, 574)),
       (''images/tiles/1-15 BLUE/BLUE_2_3.png'', (357, 574)),
       (''images/tiles/1-15 GREEN/GREEN_3_7.png'', (419, 574)),
       (''images/tiles/1-15 RED/RED_4_1.png'', (481, 574)),
       (''images/tiles/1-15 RED/RED_4_2.png'', (543, 574)),
       (''images/tiles/1-15 RED/RED_4_3.png'', (605, 574))],
     PLAYER_1 =
      [(''images/tiles/1-15 BLACK/BLACK_1_1.png'', Shared),
       (''images/tiles/1-15 BLUE/BLUE_2_3.png'', Shared),
       (''images/tiles/1-15 GREEN/GREEN_3_7.png'', Shared),
       (''images/tiles/1-15 RED/RED_4_1.png'', Shared),
       (''images/tiles/1-15 RED/RED_4_2.png'', Shared),
       (''images/tiles/1-15 RED/RED_4_3.png'', Shared)],
     PLAYER_2 = [(''images/tiles/1-15 YELLOW/YELLOW_5_9.png'', Rect 0 0 52 73)],
     IMG_PATHS = []\<rparr>"

definition ex_odds :: "(nat \<times> nat \<times> (int \<times> int)) list" where
  "ex_odds = [(1, 1, (100, 50)), (2, 3, (152, 50)), (3, 7, (204, 50))]"

definition ex_run :: "(nat \<times> nat \<times> (int \<times> int)) list" where
  "ex_run = [(4, 1, (100, 123)), (4, 2, (152, 123)), (4, 3, (204, 123))]"

text \<open>The clusters of the first board, and the board after its validation pass.\<close>

definition ex_clusters :: "item list list" where
  "ex_clusters =
     [[(''images/tiles/1-15 BLACK/BLACK_1_5.png'', (100, 50)),
       (''images/tiles/1-15 BLUE/BLUE_2_5.png'', (152, 50)),
       (''images/tiles/1-15 GREEN/GREEN_3_5.png'', (204, 50))],
      [(''images/tiles/1-15 RED/RED_4_1.png'', (100, 123)),
       (''images/tiles/1-15 RED/RED_4_2.png'', (152, 123)),
       (''images/tiles/1-15 BLUE/BLUE_2_4.png'', (204, 123))]]"

definition ex_game_after :: game where
  "ex_game_after = \<lparr>game_object_database =
      [(''brown_rack_image_tile2'', Rect 290 574 700 73),
       (''images/tiles/1-15 BLACK/BLACK_1_5.png'', Rect 100 50 52 73),
       (''images/tiles/1-15 BLUE/BLUE_2_5.png'', Rect 152 50 52 73),
       (''images/tiles/1-15 GREEN/GREEN_3_5.png'', Rect 204 50 52 73),
       (''images/tiles/1-15 RED/RED_4_1.png'', Rect 481 574 52 73),
       (''images/tiles/1-15 RED/RED_4_2.png'', Rect 543 574 52 73),
       (''images/tiles/1-15 BLUE/BLUE_2_4.png'', Rect 605 574 52 73)],
     image_database =
      [(''brown_rack_image_tile2'', (290, 574)),
       (''images/tiles/1-15 BLACK/BLACK_1_5.png'', (100, 50)),
       (''images/tiles/1-15 BLUE/BLUE_2_5.png'', (152, 50)),
       (''images/tiles/1-15 GREEN/GREEN_3_5.png'', (204, 50)),
       (''images/tiles/1-15 RED/RED_4_1.png'', (481, 574)),
       (''images/tiles/1-15 RED/RED_4_2.png'', (543, 574)),
       (''images/tiles/1-15 BLUE/BLUE_2_4.png'', (605, 574))],
     PLAYER_1 = [],
     PLAYER_2 = [(''images/tiles/1-15 YELLOW/YELLOW_5_9.png'', Rect 0 0 52 73)],
     IMG_PATHS = []\<rparr>"

text \<open>
  A board with a cluster of two: the fives of BLACK and BLUE dragged side by side onto
  the first row, the GREEN five still on the rack.
\<close>

definition ex_pair :: game where
  "ex_pair = \<lparr>game_object_database =
      [(''brown_rack_image_tile2'', Rect 290 574 700 73),
       (''images/tiles/1-15 BLACK/BLACK_1_5.png'', Rect 100 50 52 73),
       (''images/tiles/1-15 BLUE/BLUE_2_5.png'', Rect 152 50 52 73),
       (''images/tiles/1-15 GREEN/GREEN_3_5.png'', Rect 419 574 52 73)],
     image_database =
      [(''brown_rack_image_tile2'', (290, 574)),
       (''images/tiles/1-15 BLACK/BLACK_1_5.png'', (295, 574)),
       (''images/tiles/1-15 BLUE/BLUE_2_5.png'', (357, 574)),
       (''images/tiles/1-15 GREEN/GREEN_3_5.png'', (419, 574))],
     PLAYER_1 =
      [(''images/tiles/1-15 BLACK/BLACK_1_5.png'', Shared),
       (''images/tiles/1-15 BLUE/BLUE_2_5.png'', Shared),
       (''images/tiles/1-15 GREEN/GREEN_3_5.png'', Shared)],
     PLAYER_2 = [(''images/tiles/1-15 YELLOW/YELLOW_5_9.png'', Rect 0 0 52 73)],
     IMG_PATHS = []\<rparr>"

definition ex_pair_clusters :: "item list list" where
  "ex_pair_clusters =
     [[(''images/tiles/1-15 BLACK/BLACK_1_5.png'', (100, 50)),
       (''images/tiles/1-15 BLUE/BLUE_2_5.png'', (152, 50))]]"

definition ex_pair_after :: game where
  "ex_pair_after = ex_pair\<lparr>game_object_database :=
      [(''brown_rack_image_tile2'', Rect 290 574 700 73),
       (''images/tiles/1-15 BLACK/BLACK_1_5.png'', Rect 295 574 52 73),
       (''images/tiles/1-15 BLUE/BLUE_2_5.png'', Rect 357 574 52 73),
       (''images/tiles/1-15 GREEN/GREEN_3_5.png'', Rect 419 574 52 73)]\<rparr>"

text \<open>
  A board with three tiles that touch no other tile: RED 1, RED 3 and RED 5, dragged from
  the rack to three different rows and columns of the board; the one list that
  get\_tile\_by\_position makes of them, and the board after the validation pass.
\<close>

definition ex_isolated :: game where
  "ex_isolated = \<lparr>game_object_database =
      [(''brown_rack_image_tile2'', Rect 290 574 700 73),
       (''images/tiles/1-15 RED/RED_4_1.png'', Rect 100 50 52 73),
       (''images/tiles/1-15 RED/RED_4_3.png'', Rect 256 123 52 73),
       (''images/tiles/1-15 RED/RED_4_5.png'', Rect 412 196 52 73)],
     image_database =
      [(''brown_rack_image_tile2'', (290, 574)),
       (''images/tiles/1-15 RED/RED_4_1.png'', (295, 574)),
       (''images/tiles/1-15 RED/RED_4_3.png'', (357, 574)),
       (''images/tiles/1-15 RED/RED_4_5.png'', (419, 574))],
     PLAYER_1 =
      [(''images/tiles/1-15 RED/RED_4_1.png'', Shared),
       (''images/tiles/1-15 RED/RED_4_3.png'', Shared),
       (''images/tiles/1-15 RED/RED_4_5.png'', Shared)],
     PLAYER_2 = [(''images/tiles/1-15 YELLOW/YELLOW_5_9.png'', Rect 0 0 52 73)],
     IMG_PATHS = []\<rparr>"

definition ex_isolated_clusters :: "item list list" where
  "ex_isolated_clusters =
     [[(''images/tiles/1-15 RED/RED_4_1.png'', (100, 50)),
       (''images/tiles/1-15 RED/RED_4_3.png'', (256, 123)),
       (''images/tiles/1-15 RED/RED_4_5.png'', (412, 196))]]"

definition ex_isolated_after :: game where
  "ex_isolated_after = ex_isolated\<lparr>image_database :=
      [(''brown_rack_image_tile2'', (290, 574)),
       (''images/tiles/1-15 RED/RED_4_1.png'', (100, 50)),
       (''images/tiles/1-15 RED/RED_4_3.png'', (256, 123)),
       (''images/tiles/1-15 RED/RED_4_5.png'', (412, 196))],
     PLAYER_1 := []\<rparr>"

text \<open>
  A board with one cluster: the fives of BLACK, BLUE and GREEN side by side in the first
  row, RED 1 on the rack; and the board after its validation pass.
\<close>

definition ex_group :: game where
  "ex_group = \<lparr>game_object_database =
      [(''brown_rack_image_tile2'', Rect 290 574 700 73),
       (''images/tiles/1-15 BLACK/BLACK_1_5.png'', Rect 100 50 52 73),
       (''images/tiles/1-15 BLUE/BLUE_2_5.png'', Rect 152 50 52 73),
       (''images/tiles/1-15 GREEN/GREEN_3_5.png'', Rect 204 50 52 73),
       (''images/tiles/1-15 RED/RED_4_1.png'', Rect 481 574 52 73)],
     image_database =
      [(''brown_rack_image_tile2'', (290, 574)),
       (''images/tiles/1-15 BLACK/BLACK_1_5.png'', (295, 574)),
       (''images/tiles/1-15 BLUE/BLUE_2_5.png'', (357, 574)),
       (''images/tiles/1-15 GREEN/GREEN_3_5.png'', (419, 574)),
       (''images/tiles/1-15 RED/RED_4_1.png'', (481, 574))],
     PLAYER_1 =
      [(''images/tiles/1-15 BLACK/BLACK_1_5.png'', Shared),
       (''images/tiles/1-15 BLUE/BLUE_2_5.png'', Shared),
       (''images/tiles/1-15 GREEN/GREEN_3_5.png'', Shared),
       (''images/tiles/1-15 RED/RED_4_1.png'', Shared)],
     PLAYER_2 = [(''images/tiles/1-15 YELLOW/YELLOW_5_9.png'', Rect 0 0 52 73)],
     IMG_PATHS = []\<rparr>"

definition ex_group_clusters :: "item list list" where
  "ex_group_clusters =
     [[(''images/tiles/1-15 BLACK/BLACK_1_5.png'', (100, 50)),
       (''images/tiles/1-15 BLUE/BLUE_2_5.png'', (152, 50)),
       (''images/tiles/1-15 GREEN/GREEN_3_5.png'', (204, 50))]]"

definition ex_group_after :: game where
  "ex_group_after = ex_group\<lparr>image_database :=
      [(''brown_rack_image_tile2'', (290, 574)),
       (''images/tiles/1-15 BLACK/BLACK_1_5.png'', (100, 50)),
       (''images/tiles/1-15 BLUE/BLUE_2_5.png'', (152, 50)),
       (''images/tiles/1-15 GREEN/GREEN_3_5.png'', (204, 50)),
       (''images/tiles/1-15 RED/RED_4_1.png'', (481, 574))],
     PLAYER_1 := [(''images/tiles/1-15 RED/RED_4_1.png'', Shared)]\<rparr>"

text \<open>
  A board after a committed group of fives, with GREEN 9 on the human rack; the opponent
  holds RED 13, BLUE 4, RED 1 and RED 5. After the opponent's turn the three RED tiles
  lie on the board.
\<close>

definition ex_ai :: game where
  "ex_ai = \<lparr>game_object_database =
      [(''brown_rack_image_tile2'', Rect 290 574 700 73),
       (''images/tiles/1-15 BLACK/BLACK_1_5.png'', Rect 100 50 52 73),
       (''images/tiles/1-15 BLUE/BLUE_2_5.png'', Rect 152 50 52 73),
       (''images/tiles/1-15 GREEN/GREEN_3_5.png'', Rect 204 50 52 73),
       (''images/tiles/1-15 GREEN/GREEN_3_9.png'', Rect 295 574 52 73)],
     image_database =
      [(''brown_rack_image_tile2'', (290, 574)),
       (''images/tiles/1-15 BLACK/BLACK_1_5.png'', (100, 50)),
       (''images/tiles/1-15 BLUE/BLUE_2_5.png'', (152, 50)),
       (''images/tiles/1-15 GREEN/GREEN_3_5.png'', (204, 50)),
       (''images/tiles/1-15 GREEN/GREEN_3_9.png'', (295, 574))],
     PLAYER_1 = [(''images/tiles/1-15 GREEN/GREEN_3_9.png'', Shared)],
     PLAYER_2 =
      [(''images/tiles/1-15 RED/RED_4_13.png'', Rect 0 0 52 73),
       (''images/tiles/1-15 BLUE/BLUE_2_4.png'', Rect 0 0 52 73),
       (''images/tiles/1-15 RED/RED_4_1.png'', Rect 0 0 52 73),
       (''images/tiles/1-15 RED/RED_4_5.png'', Rect 0 0 52 73)],
     IMG_PATHS = []\<rparr>"

definition ex_ai_meld :: "ai_item list" where
  "ex_ai_meld =
     [(''images/tiles/1-15 RED/RED_4_1.png'', ''1'', ''4'', Rect 0 0 52 73),
      (''images/tiles/1-15 RED/RED_4_5.png'', ''5'', ''4'', Rect 0 0 52 73),
      (''images/tiles/1-15 RED/RED_4_13.png'', ''13'', ''4'', Rect 0 0 52 73)]"

definition ex_ai_after :: game where
  "ex_ai_after = \<lparr>game_object_database =
      [(''brown_rack_image_tile2'', Rect 290 574 700 73),
       (''images/tiles/1-15 BLACK/BLACK_1_5.png'', Rect 100 50 52 73),
       (''images/tiles/1-15 BLUE/BLUE_2_5.png'', Rect 152 50 52 73),
       (''images/tiles/1-15 GREEN/GREEN_3_5.png'', Rect 204 50 52 73),
       (''images/tiles/1-15 GREEN/GREEN_3_9.png'', Rect 295 574 52 73),
       (''images/tiles/1-15 RED/RED_4_1.png'', Rect 308 50 52 73),
       (''images/tiles/1-15 RED/RED_4_5.png'', Rect 360 50 52 73),
       (''images/tiles/1-15 RED/RED_4_13.png'', Rect 412 50 52 73)],
     image_database =
      [(''brown_rack_image_tile2'', (290, 574)),
       (''images/tiles/1-15 BLACK/BLACK_1_5.png'', (100, 50)),
       (''images/tiles/1-15 BLUE/BLUE_2_5.png'', (152, 50)),
       (''images/tiles/1-15 GREEN/GREEN_3_5.png'', (204, 50)),
       (''images/tiles/1-15 GREEN/GREEN_3_9.png'', (295, 574)),
       (''images/tiles/1-15 RED/RED_4_1.png'', (308, 50)),
       (''images/tiles/1-15 RED/RED_4_5.png'', (360, 50)),
       (''images/tiles/1-15 RED/RED_4_13.png'', (412, 50))],
     PLAYER_1 = [(''images/tiles/1-15 GREEN/GREEN_3_9.png'', Shared)],
     PLAYER_2 = [(''images/tiles/1-15 BLUE/BLUE_2_4.png'', Rect 0 0 52 73)],
     IMG_PATHS = []\<rparr>"

text \<open>
  The same board with an opponent who holds BLUE 4, RED 1 and RED 5 only; with the random
  numbers (2, 4), (0, 6) the opponent first hits GREEN 5, which lies on the board, and
  then draws BLACK 7.
\<close>

definition ex_ai_draw :: game where
  "ex_ai_draw = ex_ai\<lparr>PLAYER_2 :=
      [(''images/tiles/1-15 BLUE/BLUE_2_4.png'', Rect 0 0 52 73),
       (''images/tiles/1-15 RED/RED_4_1.png'', Rect 0 0 52 73),
       (''images/tiles/1-15 RED/RED_4_5.png'', Rect 0 0 52 73)]\<rparr>"

definition ex_ai_draw_after :: game where
  "ex_ai_draw_after = ex_ai\<lparr>image_database :=
      [(''brown_rack_image_tile2'', (290, 574)),
       (''images/tiles/1-15 BLACK/BLACK_1_5.png'', (100, 50)),
       (''images/tiles/1-15 BLUE/BLUE_2_5.png'', (152, 50)),
       (''images/tiles/1-15 GREEN/GREEN_3_5.png'', (204, 50)),
       (''images/tiles/1-15 GREEN/GREEN_3_9.png'', (295, 574)),
       (''images/tiles/1-15 BLACK/BLACK_1_7.png'', (0, 0))],
     PLAYER_2 :=
      [(''images/tiles/1-15 BLUE/BLUE_2_4.png'', Rect 0 0 52 73),
       (''images/tiles/1-15 RED/RED_4_1.png'', Rect 0 0 52 73),
       (''images/tiles/1-15 RED/RED_4_5.png'', Rect 0 0 52 73),
       (''images/tiles/1-15 BLACK/BLACK_1_7.png'', Rect 0 0 52 73)]\<rparr>"

text \<open>
  A table of tile images with a first row of fifteen entries and one row of sixteen per
  colour, and random numbers that deal BLACK 1 to 15 to the first rack and BLUE 1 to 15
  to the second, with one repeated draw in between.
\<close>

definition ex_tiles :: "string list list" where
  "ex_tiles = replicate 15 ''tile'' #
     map (\<lambda>c. ''tile'' # map (\<lambda>n. the (tile_image_path c n)) [1 ..< 16]) [1 ..< 6]"

definition ex_draws :: "(nat \<times> nat) list" where
  "ex_draws = map (\<lambda>n. (1, n)) [0 ..< 15] @ [(1, 3)] @ map (\<lambda>n. (2, n)) [0 ..< 15]"



section \<open>Properties\<close>

subsection \<open>Keys and card strings\<close>

lemma slice_neg_append:
  "length ys = a \<Longrightarrow> b \<le> a \<Longrightarrow> slice_neg a b (xs @ ys) = take (a - b) ys"
  by (simp add: slice_neg_def)

lemma digit_cases: "d < 10 \<Longrightarrow> d \<in> {0, 1, 2, 3, 4, 5, 6, 7, 8, 9::nat}"
  by auto

lemma is_digit_char_digit_char: "d < 10 \<Longrightarrow> is_digit_char (digit_char d)"
  using digit_cases [of d] by (auto simp: is_digit_char_def digit_char_def)

lemma digit_val_digit_char: "d < 10 \<Longrightarrow> digit_val (digit_char d) = int d"
  using digit_cases [of d] by (auto simp: digit_val_def digit_char_def)

lemma isdigit_str: "isdigit (str n)"
proof (induction n rule: str.induct)
  case (1 n)
  show ?case
  proof (cases "n < 10")
    case True
    then show ?thesis by (subst str.simps) (simp add: isdigit_def is_digit_char_digit_char)
  next
    case False
    with 1 have "isdigit (str (n div 10))" by simp
    moreover have "is_digit_char (digit_char (n mod 10))" by (simp add: is_digit_char_digit_char)
    ultimately show ?thesis using False by (subst str.simps) (simp add: isdigit_def)
  qed
qed

lemma py_int_str: "py_int (str n) = Some (int n)"
proof (induction n rule: str.induct)
  case (1 n)
  show ?case
  proof (cases "n < 10")
    case True
    then show ?thesis
      by (subst str.simps) (simp add: py_int_def isdigit_def is_digit_char_digit_char digit_val_digit_char)
  next
    case False
    with 1 have ih: "py_int (str (n div 10)) = Some (int (n div 10))" by simp
    have d: "isdigit (str n)" by (rule isdigit_str)
    have "foldl (\<lambda>a c. 10 * a + digit_val c) 0 (str n) =
          10 * foldl (\<lambda>a c. 10 * a + digit_val c) 0 (str (n div 10)) + digit_val (digit_char (n mod 10))"
      using False by (subst str.simps) simp
    also have "foldl (\<lambda>a c. 10 * a + digit_val c) 0 (str (n div 10)) = int (n div 10)"
      using ih by (simp add: py_int_def split: if_splits)
    finally show ?thesis using d by (simp add: py_int_def digit_val_digit_char zdiv_int zmod_int)
  qed
qed

lemma str_inj: "str n = str m \<Longrightarrow> n = m"
proof -
  assume "str n = str m"
  then have "py_int (str n) = py_int (str m)" by (rule arg_cong)
  then show ?thesis by (simp only: py_int_str option.inject of_nat_eq_iff)
qed


lemma slice_neg_suffix:
  "a \<le> length ys \<Longrightarrow> slice_neg a b (xs @ ys) = slice_neg a b ys"
  by (simp add: slice_neg_def)

lemma str_digit: "n < 10 \<Longrightarrow> str n = [digit_char n]"
  by (subst str.simps) simp

lemma str_two: "10 \<le> n \<Longrightarrow> n < 100 \<Longrightarrow> str n = [digit_char (n div 10), digit_char (n mod 10)]"
  by (subst str.simps) (simp add: str_digit)

lemma not_digit_underscore: "\<not> is_digit_char CHR ''_''"
  by (simp add: is_digit_char_def)

lemma parse_card_suffix1:
  "parse_card (p @ [dc, CHR ''_'', dn, CHR ''.'', CHR ''p'', CHR ''n'', CHR ''g'']) = ([dn], [dc])"
proof -
  let ?ys = "[dc, CHR ''_'', dn, CHR ''.'', CHR ''p'', CHR ''n'', CHR ''g'']"
  have a: "slice_neg 6 4 (p @ ?ys) = [CHR ''_'', dn]"
    by (subst slice_neg_suffix) (simp_all add: slice_neg_def)
  have b: "slice_neg 5 4 (p @ ?ys) = [dn]"
    by (subst slice_neg_suffix) (simp_all add: slice_neg_def)
  have c: "slice_neg 7 6 (p @ ?ys) = [dc]"
    by (subst slice_neg_suffix) (simp_all add: slice_neg_def)
  show ?thesis
    unfolding parse_card_def a b c by (simp add: isdigit_def not_digit_underscore)
qed

lemma parse_card_suffix2:
  "is_digit_char d1 \<Longrightarrow> is_digit_char d2 \<Longrightarrow>
   parse_card (p @ [dc, CHR ''_'', d1, d2, CHR ''.'', CHR ''p'', CHR ''n'', CHR ''g'']) = ([d1, d2], [dc])"
proof -
  assume d: "is_digit_char d1" "is_digit_char d2"
  let ?ys = "[dc, CHR ''_'', d1, d2, CHR ''.'', CHR ''p'', CHR ''n'', CHR ''g'']"
  have a: "slice_neg 6 4 (p @ ?ys) = [d1, d2]"
    by (subst slice_neg_suffix) (simp_all add: slice_neg_def)
  have c: "slice_neg 8 7 (p @ ?ys) = [dc]"
    by (subst slice_neg_suffix) (simp_all add: slice_neg_def)
  show ?thesis
    unfolding parse_card_def a c using d by (simp add: isdigit_def)
qed

lemma py_nth_color: "1 \<le> c \<Longrightarrow> c \<le> 5 \<Longrightarrow> \<exists>name. py_nth color (int c - 1) = Some name"
  by (simp add: py_nth_def color_def)

lemma parse_card_path:
  assumes "1 \<le> c" "c \<le> 5" "1 \<le> n" "n < 100"
  shows "\<exists>key. tile_image_path c n = Some key \<and> parse_card key = (str n, str c)"
proof -
  from py_nth_color [OF assms(1,2)] obtain name where name: "py_nth color (int c - 1) = Some name" ..
  have sc: "str c = [digit_char c]" using assms(2) by (simp add: str_digit)
  define p where "p = ''images/tiles/1-15 '' @ name @ ''/'' @ name"
  show ?thesis
  proof (cases "n < 10")
    case True
    then have sn: "str n = [digit_char n]" by (simp add: str_digit)
    have k: "tile_image_path c n =
      Some ((p @ ''_'') @ [digit_char c, CHR ''_'', digit_char n, CHR ''.'', CHR ''p'', CHR ''n'', CHR ''g''])"
      by (simp add: tile_image_path_def name sc sn p_def)
    have "parse_card ((p @ ''_'') @ [digit_char c, CHR ''_'', digit_char n, CHR ''.'', CHR ''p'', CHR ''n'', CHR ''g''])
          = ([digit_char n], [digit_char c])"
      by (rule parse_card_suffix1)
    with k show ?thesis unfolding sc sn by blast
  next
    case False
    then have sn: "str n = [digit_char (n div 10), digit_char (n mod 10)]"
      using assms(4) by (simp add: str_two)
    have d: "is_digit_char (digit_char (n div 10))" "is_digit_char (digit_char (n mod 10))"
      using assms(4) by (simp_all add: is_digit_char_digit_char)
    have k: "tile_image_path c n =
      Some ((p @ ''_'') @ [digit_char c, CHR ''_'', digit_char (n div 10), digit_char (n mod 10),
                  CHR ''.'', CHR ''p'', CHR ''n'', CHR ''g''])"
      by (simp add: tile_image_path_def name sc sn p_def)
    have "parse_card ((p @ ''_'') @ [digit_char c, CHR ''_'', digit_char (n div 10), digit_char (n mod 10),
                  CHR ''.'', CHR ''p'', CHR ''n'', CHR ''g''])
          = ([digit_char (n div 10), digit_char (n mod 10)], [digit_char c])"
      using d by (rule parse_card_suffix2)
    with k show ?thesis unfolding sc sn by blast
  qed
qed

lemma even_loop_str:
  "even_loop (map str ns) = Some (successively (\<lambda>a b. even a \<and> a < b) ns)"
proof (induction ns rule: induct_list012)
  case (3 a b rest)
  then show ?case by (simp add: py_int_str) presburger
qed simp_all

lemma odd_loop_str:
  "odd_loop (map str ns) = Some (successively (\<lambda>a b. odd a \<and> a < b) ns)"
proof (induction ns rule: induct_list012)
  case (3 a b rest)
  then show ?case by (simp add: py_int_str) presburger
qed simp_all

lemma successively_parity:
  "ns \<noteq> [] \<Longrightarrow>
   (P (last ns) \<and> successively (\<lambda>a b. P a \<and> a < b) ns) = (list_all P ns \<and> successively (<) (ns :: nat list))"
  by (induction ns rule: induct_list012) auto

lemma all_even_str:
  "ns \<noteq> [] \<Longrightarrow> all_even_numbers_satisfied (map str ns) = Some (list_all even ns \<and> successively (<) ns)"
proof -
  assume ne: "ns \<noteq> []"
  have "all_even_numbers_satisfied (map str ns) =
        Some (even (last ns) \<and> successively (\<lambda>a b. even a \<and> a < b) ns)"
    using ne by (auto simp: all_even_numbers_satisfied_def even_loop_str last_map py_int_str)
  then show ?thesis using successively_parity [OF ne, of even] by simp
qed

lemma all_odd_str:
  "ns \<noteq> [] \<Longrightarrow> all_odd_numbers_satisfied (map str ns) = Some (list_all odd ns \<and> successively (<) ns)"
proof -
  assume ne: "ns \<noteq> []"
  have "all_odd_numbers_satisfied (map str ns) =
        Some (odd (last ns) \<and> successively (\<lambda>a b. odd a \<and> a < b) ns)"
    using ne by (auto simp: all_odd_numbers_satisfied_def odd_loop_str last_map py_int_str)
  then show ?thesis using successively_parity [OF ne, of odd] by simp
qed


lemma update_fresh: "k \<notin> fst ` set al \<Longrightarrow> AList.update k v al = al @ [(k, v)]"
  by (induction al) auto

lemma foldl_update_distinct:
  "distinct (map fst pvs) \<Longrightarrow> fst ` set acc \<inter> fst ` set pvs = {} \<Longrightarrow>
   foldl (\<lambda>d kv. AList.update (fst kv) (g kv) d) acc pvs = acc @ map (\<lambda>kv. (fst kv, g kv)) pvs"
proof (induction pvs arbitrary: acc)
  case Nil
  then show ?case by simp
next
  case (Cons kv pvs)
  have fresh: "fst kv \<notin> fst ` set acc" using Cons.prems(2) by auto
  have step: "AList.update (fst kv) (g kv) acc = acc @ [(fst kv, g kv)]"
    using fresh by (rule update_fresh)
  have d: "distinct (map fst pvs)" using Cons.prems(1) by simp
  have disj: "fst ` set (acc @ [(fst kv, g kv)]) \<inter> fst ` set pvs = {}"
    using Cons.prems by auto
  show ?case using Cons.IH [OF d disj] by (simp add: step)
qed

lemma card_number_of_distinct:
  "distinct (map fst pvs) \<Longrightarrow>
   card_number_of pvs =
     map (\<lambda>kv. (fst kv, fst (parse_card (fst kv)), snd (parse_card (fst kv)), snd kv)) pvs"
  unfolding card_number_of_def using foldl_update_distinct [of pvs "[]"] by simp

lemma valid_tile_path:
  assumes "valid_tiles ts" "t \<in> set ts"
  shows "\<exists>key. tile_image_path (tile_color t) (tile_number t) = Some key \<and>
           parse_card key = (str (tile_number t), str (tile_color t))"
proof -
  from assms have "1 \<le> tile_color t" "tile_color t \<le> 5" "1 \<le> tile_number t" "tile_number t < 100"
    by (auto simp: valid_tiles_def list_all_iff)
  then show ?thesis by (rule parse_card_path)
qed

lemma parse_tile_items:
  assumes "valid_tiles ts" "t \<in> set ts"
  shows "parse_card (the (tile_image_path (fst t) (fst (snd t)))) = (str (tile_number t), str (tile_color t))"
  using valid_tile_path [OF assms] by (auto simp: tile_color_def tile_number_def)

lemma tile_items_distinct:
  assumes "valid_tiles ts"
  shows "distinct (map fst (tile_items ts))"
proof -
  let ?f = "\<lambda>t. the (tile_image_path (fst t) (fst (snd t)))"
  let ?g = "\<lambda>t. (tile_color t, tile_number t)"
  from assms have dg: "distinct (map ?g ts)" by (simp add: valid_tiles_def)
  then have d: "distinct ts" and ig: "inj_on ?g (set ts)" by (simp_all add: distinct_map)
  have "inj_on ?f (set ts)"
  proof (rule inj_onI)
    fix t t' assume t: "t \<in> set ts" and t': "t' \<in> set ts" and eq: "?f t = ?f t'"
    have "(str (tile_number t), str (tile_color t)) = (str (tile_number t'), str (tile_color t'))"
      using parse_tile_items [OF assms t] parse_tile_items [OF assms t'] eq by simp
    then have "?g t = ?g t'" by (auto dest: str_inj)
    with ig t t' show "t = t'" by (auto dest: inj_onD)
  qed
  with d have "distinct (map ?f ts)" by (simp add: distinct_map)
  moreover have "map fst (tile_items ts) = map ?f ts" by (simp add: tile_items_def)
  ultimately show ?thesis by simp
qed

lemma tile_values_eq:
  assumes "valid_tiles ts"
  shows "map snd (card_number_of (tile_items ts)) =
         map (\<lambda>t. (str (tile_number t), str (tile_color t), snd (snd t))) ts"
proof -
  have "map snd (card_number_of (tile_items ts)) =
        map (\<lambda>kv. (fst (parse_card (fst kv)), snd (parse_card (fst kv)), snd kv)) (tile_items ts)"
    by (simp add: card_number_of_distinct [OF tile_items_distinct [OF assms]] comp_def)
  also have "\<dots> = map (\<lambda>t. (fst (parse_card (the (tile_image_path (fst t) (fst (snd t))))),
                             snd (parse_card (the (tile_image_path (fst t) (fst (snd t))))), snd (snd t))) ts"
    by (simp add: tile_items_def comp_def)
  also have "\<dots> = map (\<lambda>t. (str (tile_number t), str (tile_color t), snd (snd t))) ts"
    by (rule map_cong) (simp_all add: parse_tile_items [OF assms])
  finally show ?thesis .
qed

lemma meld_test_str:
  assumes "ts \<noteq> []"
  shows "meld_test (map (\<lambda>t. (str (tile_number t), str (tile_color t), snd (snd t))) ts) =
     Some ((one_number ts \<and> list_all (\<lambda>t. tile_color t \<noteq> tile_color (hd ts)) (tl ts)) \<or>
           (list_all (\<lambda>t. tile_color t = tile_color (hd ts)) (tl ts) \<and>
            list_all (\<lambda>t. even (tile_number t)) ts \<and> successively (<) (map tile_number ts)) \<or>
           (list_all (\<lambda>t. odd (tile_number t)) ts \<and> successively (<) (map tile_number ts)))"
proof -
  from assms obtain t0 rest where ts: "ts = t0 # rest" by (cases ts) auto
  let ?vals = "map (\<lambda>t. (str (tile_number t), str (tile_color t), snd (snd t))) ts"
  have cards: "map fst ?vals = map str (map tile_number ts)" by (simp add: comp_def)
  have ne: "map tile_number ts \<noteq> []" using assms by simp
  have ev: "all_even_numbers_satisfied (map fst ?vals) =
      Some (list_all (\<lambda>t. even (tile_number t)) ts \<and> successively (<) (map tile_number ts))"
    unfolding cards all_even_str [OF ne] by (simp add: list_all_iff)
  have od: "all_odd_numbers_satisfied (map fst ?vals) =
      Some (list_all (\<lambda>t. odd (tile_number t)) ts \<and> successively (<) (map tile_number ts))"
    unfolding cards all_odd_str [OF ne] by (simp add: list_all_iff)
  have inj: "\<And>a b. (str a = str b) = (a = b)" by (auto dest: str_inj)
  show ?thesis
    unfolding meld_test_def ev od
    by (simp add: ts one_number_def list_all_iff inj Let_def)
qed

lemma meld_test_tiles:
  assumes "valid_tiles ts" "ts \<noteq> []"
  shows "meld_test (map snd (card_number_of (tile_items ts))) =
     Some ((one_number ts \<and> list_all (\<lambda>t. tile_color t \<noteq> tile_color (hd ts)) (tl ts)) \<or>
           (list_all (\<lambda>t. tile_color t = tile_color (hd ts)) (tl ts) \<and>
            list_all (\<lambda>t. even (tile_number t)) ts \<and> successively (<) (map tile_number ts)) \<or>
           (list_all (\<lambda>t. odd (tile_number t)) ts \<and> successively (<) (map tile_number ts)))"
  unfolding tile_values_eq [OF assms(1)] by (rule meld_test_str [OF assms(2)])

lemma step2_parity:
  "successively (\<lambda>a b. b = a + 2) ns \<Longrightarrow>
   (list_all even ns \<or> list_all odd ns) \<and> successively (<) (ns :: nat list)"
  by (induction ns rule: induct_list012) auto

lemma update_values_flag:
  "update_values cfg item_sum s = Some (b, s') \<Longrightarrow> meld_test (map snd item_sum) = Some b"
  by (auto simp: update_values_def split: option.splits if_splits)

subsection \<open>The meld test\<close>

text \<open>
  C2 (as amended). For a cluster of tiles with colour index 1 to 5 and number 1 to 15 on
  which update\_values returns: the cluster is accepted if all tiles share one number and
  the colours are pairwise distinct, or if all tiles share one colour and the numbers go
  up by two from tile to tile; and an accepted cluster has one number throughout, or
  numbers that are all even or all odd and strictly increasing. Every other cluster is
  rejected.
\<close>

theorem update_values_melds:
  assumes "valid_tiles ts" and "ts \<noteq> []"
    and "update_values cfg (card_number_of (tile_items ts)) s = Some (accepted, s')"
  shows "(spec_legal_group ts \<or> step2_run ts \<longrightarrow> accepted) \<and>
         (accepted \<longrightarrow> one_number ts \<or> parity_increasing ts)"
proof -
  from assms(2) obtain t0 rest where ts: "ts = t0 # rest" by (cases ts) auto
  have flag: "accepted =
     ((one_number ts \<and> list_all (\<lambda>t. tile_color t \<noteq> tile_color (hd ts)) (tl ts)) \<or>
      (list_all (\<lambda>t. tile_color t = tile_color (hd ts)) (tl ts) \<and>
       list_all (\<lambda>t. even (tile_number t)) ts \<and> successively (<) (map tile_number ts)) \<or>
      (list_all (\<lambda>t. odd (tile_number t)) ts \<and> successively (<) (map tile_number ts)))"
    using update_values_flag [OF assms(3)] meld_test_tiles [OF assms(1,2)] by simp
  have group: "accepted" if "spec_legal_group ts"
  proof -
    from that have on: "one_number ts" and d: "distinct (map tile_color ts)"
      by (simp_all add: spec_legal_group_def one_number_def)
    from d have "tile_color t0 \<notin> tile_color ` set rest" by (simp add: ts)
    then have "\<forall>t\<in>set rest. tile_color t \<noteq> tile_color t0"
      by (metis imageI)
    then have "list_all (\<lambda>t. tile_color t \<noteq> tile_color (hd ts)) (tl ts)"
      by (simp add: list_all_iff ts)
    with on show ?thesis unfolding flag by blast
  qed
  have run: "accepted" if "step2_run ts"
  proof -
    from that have col: "list_all (\<lambda>t. tile_color t = tile_color (hd ts)) (tl ts)"
      by (simp add: step2_run_def ts)
    from that have "successively (\<lambda>a b. b = a + 2) (map tile_number ts)"
      by (simp add: step2_run_def)
    from step2_parity [OF this]
    have "(list_all (\<lambda>t. even (tile_number t)) ts \<or> list_all (\<lambda>t. odd (tile_number t)) ts) \<and>
          successively (<) (map tile_number ts)"
      by (simp add: list_all_iff)
    with col show ?thesis unfolding flag by blast
  qed
  have conv: "one_number ts \<or> parity_increasing ts" if "accepted"
    using that unfolding flag parity_increasing_def by blast
  from group run conv show ?thesis by blast
qed


theorem update_values_melds_witness:
  "spec_legal_group ex_fives \<and>
   map_option fst (update_values ex_cfg (card_number_of (tile_items ex_fives)) ex_game) = Some True"
proof -
  have v: "valid_tiles ex_fives" and ne: "ex_fives \<noteq> []" and g: "spec_legal_group ex_fives"
    by code_simp+
  have "map_option fst (update_values ex_cfg (card_number_of (tile_items ex_fives)) ex_game) \<noteq> None"
    by code_simp
  then obtain accepted s' where
    u: "update_values ex_cfg (card_number_of (tile_items ex_fives)) ex_game = Some (accepted, s')"
    by (cases "update_values ex_cfg (card_number_of (tile_items ex_fives)) ex_game") auto
  from update_values_melds [OF v ne u] g have "accepted" by blast
  with u g show ?thesis by simp
qed

text \<open>
  The claim as stated fails in both directions: RED 1, RED 2, RED 3 is a legal Run and
  is rejected; BLACK 1, BLUE 3, GREEN 7 is neither a Group nor a Run and is accepted.
\<close>

theorem update_values_not_group_or_run:
  "spec_legal_run ex_run \<and>
   map_option fst (update_values ex_cfg (card_number_of (tile_items ex_run)) ex_game2) = Some False \<and>
   \<not> spec_legal_group ex_odds \<and> \<not> spec_legal_run ex_odds \<and>
   map_option fst (update_values ex_cfg (card_number_of (tile_items ex_odds)) ex_game2) = Some True"
  by code_simp

subsection \<open>Rollback and commit\<close>

lemma rollback_loop_keys:
  "rollback_loop img god = Some god' \<Longrightarrow> map fst god' = map fst god"
  by (induction god arbitrary: god') (auto split: if_splits option.splits)

lemma rollback_loop_map_of:
  "rollback_loop img god = Some god' \<Longrightarrow> map_of god' key = Some r \<Longrightarrow>
   contains ''images/tiles/1-15'' key \<Longrightarrow> map_of img key = Some (rx r, ry r)"
proof (induction god arbitrary: god')
  case Nil
  then show ?case by simp
next
  case (Cons kr god)
  obtain k r0 where kr: "kr = (k, r0)" by (cases kr)
  show ?case
  proof (cases "contains ''images/tiles/1-15'' k")
    case True
    with Cons.prems(1) kr obtain xy rest where
      xy: "map_of img k = Some xy" and rest: "rollback_loop img god = Some rest"
      and god': "god' = (k, set_xy r0 (fst xy) (snd xy)) # rest"
      by (auto split: option.splits)
    show ?thesis
    proof (cases "key = k")
      case True
      with Cons.prems(2) god' have "r = set_xy r0 (fst xy) (snd xy)" by simp
      then show ?thesis using xy True by (simp add: set_xy_def)
    next
      case False
      with Cons.prems(2) god' have "map_of rest key = Some r" by simp
      from Cons.IH [OF rest this Cons.prems(3)] show ?thesis .
    qed
  next
    case False
    with Cons.prems(1) kr obtain rest where
      rest: "rollback_loop img god = Some rest" and god': "god' = (k, r0) # rest"
      by (auto split: option.splits)
    from False Cons.prems(3) have "key \<noteq> k" by auto
    with Cons.prems(2) god' have "map_of rest key = Some r" by simp
    from Cons.IH [OF rest this Cons.prems(3)] show ?thesis .
  qed
qed

lemma rollback_props:
  assumes "rollback s = Some s'"
  shows "image_database s' = image_database s" "PLAYER_1 s' = PLAYER_1 s"
    "PLAYER_2 s' = PLAYER_2 s" "IMG_PATHS s' = IMG_PATHS s"
    "keys (game_object_database s') = keys (game_object_database s)" "all_at_snapshot s'"
proof -
  from assms obtain g where g: "rollback_loop (image_database s) (game_object_database s) = Some g"
    and s': "s' = s\<lparr>game_object_database := g\<rparr>"
    by (auto simp: rollback_def)
  show "image_database s' = image_database s" "PLAYER_1 s' = PLAYER_1 s"
    "PLAYER_2 s' = PLAYER_2 s" "IMG_PATHS s' = IMG_PATHS s" by (simp_all add: s')
  show "keys (game_object_database s') = keys (game_object_database s)"
    using rollback_loop_keys [OF g] by (simp add: s' keys_def)
  show "all_at_snapshot s'"
    unfolding all_at_snapshot_def list_all_iff
  proof (intro ballI impI)
    fix key assume k: "key \<in> set (keys (game_object_database s'))"
      and t: "contains ''images/tiles/1-15'' key"
    from k obtain r where r: "map_of g key = Some r"
      by (auto simp: s' keys_def weak_map_of_SomeI dest!: weak_map_of_SomeI)
    from rollback_loop_map_of [OF g r t] r show "tile_at s' key = snapshot s' key"
      by (simp add: tile_at_def snapshot_def s')
  qed
qed

lemma build_check_sum_bad:
  "\<not> sizes_ok pvs \<Longrightarrow> build_check_sum pvs rest cs s = Some (cs', s') \<Longrightarrow>
   cs' = cs \<and> image_database s' = image_database s \<and> PLAYER_1 s' = PLAYER_1 s \<and>
   PLAYER_2 s' = PLAYER_2 s \<and>
   keys (game_object_database s') = keys (game_object_database s) \<and>
   (rest \<noteq> [] \<longrightarrow> all_at_snapshot s')"
proof (induction rest arbitrary: s)
  case Nil
  then show ?case by simp
next
  case (Cons pv rest)
  from Cons.prems obtain s1 where r: "rollback s = Some s1"
    and b: "build_check_sum pvs rest cs s1 = Some (cs', s')"
    by (auto split: option.splits)
  note p = rollback_props [OF r]
  from Cons.IH [OF Cons.prems(1) b] have ih: "cs' = cs" "image_database s' = image_database s1"
    "PLAYER_1 s' = PLAYER_1 s1" "PLAYER_2 s' = PLAYER_2 s1"
    "keys (game_object_database s') = keys (game_object_database s1)"
    "rest \<noteq> [] \<longrightarrow> all_at_snapshot s'" by simp_all
  have "all_at_snapshot s'"
  proof (cases rest)
    case Nil
    with b have "s' = s1" by simp
    with p(6) show ?thesis by simp
  next
    case (Cons a list)
    with ih(6) show ?thesis by simp
  qed
  with ih p show ?case by simp
qed

subsection \<open>Incomplete clusters\<close>

text \<open>
  When some list that get\_tile\_by\_position returns has fewer than three or more than
  five tiles, the validation pass of check\_logic commits nothing (the committed
  positions are unchanged) and leaves every tile at its snapshot position.
\<close>

lemma validate_size_failure:
  assumes "get_tile_by_position (BIG_BOX cfg) s = Some permutation_values"
    and "\<not> sizes_ok permutation_values"
    and "validate cfg s = Some (flag, s')"
  shows "image_database s' = image_database s \<and>
         keys (game_object_database s') = keys (game_object_database s) \<and>
         (\<forall>key \<in> set (keys (game_object_database s')).
            contains ''images/tiles/1-15'' key \<longrightarrow> tile_at s' key = snapshot s key)"
proof -
  from assms(2) have ne: "permutation_values \<noteq> []" by (auto simp: sizes_ok_def)
  from assms(1,3) ne obtain check_sum s1 status where
    b: "build_check_sum permutation_values permutation_values [] s = Some (check_sum, s1)"
    and r: "run_checks cfg check_sum s1 = Some (status, s')"
    by (auto simp: validate_def validate_clusters_def split: option.splits)
  from build_check_sum_bad [OF assms(2) b] ne
  have c: "check_sum = []" and p: "image_database s1 = image_database s"
    "keys (game_object_database s1) = keys (game_object_database s)" "all_at_snapshot s1"
    by simp_all
  from r c have "s' = s1" by simp
  with p show ?thesis by (simp add: all_at_snapshot_def list_all_iff snapshot_def)
qed

text \<open>
  C3. The code does not keep to the claim. The docstring of get\_tile\_by\_position
  says that tiles which form no combination are included individually in the result, and
  the tiles of \<open>filtering_list\<close> are each appended as a list of their own; but the tiles
  that are alone in their row are appended as one list (lines 845-846). So three tiles
  that touch no other tile count as one cluster of three: on \<open>ex_isolated\<close> the three
  clusters of size one, RED 1, RED 3 and RED 5, are accepted and committed where they
  lie, nothing is rolled back, and the opponent's turn is due. And where the size test
  does fail, as for the pair of fives of \<open>ex_pair\<close>, the pass rolls back but \<open>status\<close>
  stays empty, \<^verbatim>\<open>all(status)\<close> holds, and the opponent's turn is due all the same.
\<close>

theorem check_logic_accepts_isolated_tiles:
  "get_tile_by_position (BIG_BOX ex_cfg) ex_isolated = Some ex_isolated_clusters \<and>
   map length ex_isolated_clusters = [3] \<and>
   validate ex_cfg ex_isolated = Some (True, ex_isolated_after) \<and>
   tile_at ex_isolated_after ''images/tiles/1-15 RED/RED_4_3.png'' = Some (256, 123) \<and>
   snapshot ex_isolated ''images/tiles/1-15 RED/RED_4_3.png'' = Some (357, 574) \<and>
   snapshot ex_isolated_after ''images/tiles/1-15 RED/RED_4_3.png'' = Some (256, 123) \<and>
   get_tile_by_position (BIG_BOX ex_cfg) ex_pair = Some ex_pair_clusters \<and>
   map length ex_pair_clusters = [2] \<and>
   validate ex_cfg ex_pair = Some (True, ex_pair_after)"
  by code_simp

lemma update_score_props:
  assumes "update_score cfg a b s = Some s'"
  shows "game_object_database s' = game_object_database s" "image_database s' = image_database s"
    "PLAYER_2 s' = PLAYER_2 s" "IMG_PATHS s' = IMG_PATHS s" "set (PLAYER_1 s') \<subseteq> set (PLAYER_1 s)"
  using assms by (auto simp: update_score_def split: option.splits)

lemma commit_item_props:
  assumes "commit_item cfg k v s = Some s'"
  shows "game_object_database s' =
           AList.map_entry k (\<lambda>r. set_xy r (fst (snd (snd v))) (snd (snd (snd v)))) (game_object_database s)"
    and "image_database s' = AList.map_entry k (\<lambda>_. snd (snd v)) (image_database s)"
    and "map_of (image_database s) k \<noteq> None"
    and "IMG_PATHS s' = IMG_PATHS s"
proof -
  let ?x = "fst (snd (snd v))" and ?y = "snd (snd (snd v))"
  let ?s4 = "s\<lparr>PLAYER_1 := AList.map_entry k (\<lambda>ref. case ref of Shared \<Rightarrow> Shared | Own r \<Rightarrow> Own (set_xy r ?x ?y)) (PLAYER_1 s),
               PLAYER_2 := AList.map_entry k (\<lambda>r. set_xy r ?x ?y) (PLAYER_2 s),
               game_object_database := AList.map_entry k (\<lambda>r. set_xy r ?x ?y) (game_object_database s),
               image_database := AList.map_entry k (\<lambda>_. (?x, ?y)) (image_database s)\<rparr>"
  from assms obtain rack where
    img: "map_of (image_database s) k \<noteq> None"
    and us: "update_score cfg (rw rack, rh rack) (rx rack, ry rack) ?s4 = Some s'"
    by (auto simp: commit_item_def Let_def split: option.splits)
  note p = update_score_props [OF us]
  show "game_object_database s' =
           AList.map_entry k (\<lambda>r. set_xy r ?x ?y) (game_object_database s)"
    using p(1) by simp
  show "image_database s' = AList.map_entry k (\<lambda>_. snd (snd v)) (image_database s)"
    using p(2) by simp
  show "map_of (image_database s) k \<noteq> None" by (rule img)
  show "IMG_PATHS s' = IMG_PATHS s" using p(4) by simp
qed

lemma keys_map_entry: "keys (AList.map_entry k f al) = keys al"
  by (induction al) (auto simp: keys_def)

lemma commit_item_snapshot:
  assumes "all_at_snapshot s" and "commit_item cfg k v s = Some s'"
  shows "all_at_snapshot s'"
  unfolding all_at_snapshot_def list_all_iff
proof (intro ballI impI)
  note p = commit_item_props [OF assms(2)]
  fix key assume k: "key \<in> set (keys (game_object_database s'))"
    and t: "contains ''images/tiles/1-15'' key"
  from k have k0: "key \<in> set (keys (game_object_database s))"
    by (simp add: p(1) keys_map_entry)
  with assms(1) t have old: "tile_at s key = snapshot s key"
    by (simp add: all_at_snapshot_def list_all_iff)
  from k0 obtain r where r: "map_of (game_object_database s) key = Some r"
    by (auto simp: keys_def dest!: weak_map_of_SomeI)
  show "tile_at s' key = snapshot s' key"
  proof (cases "key = k")
    case True
    from p(3) obtain xy where "map_of (image_database s) k = Some xy" by auto
    with r True show ?thesis
      by (simp add: tile_at_def snapshot_def p(1,2) map_of_map_entry set_xy_def)
  next
    case False
    with old show ?thesis
      by (simp add: tile_at_def snapshot_def p(1,2) map_of_map_entry)
  qed
qed

lemma commit_loop_props:
  "commit_loop cfg check s = Some s' \<Longrightarrow>
   keys (game_object_database s') = keys (game_object_database s) \<and>
   (all_at_snapshot s \<longrightarrow> all_at_snapshot s') \<and>
   (\<forall>key. key \<notin> set (keys check) \<longrightarrow> snapshot s' key = snapshot s key)"
proof (induction check arbitrary: s)
  case Nil
  then show ?case by simp
next
  case (Cons kv check)
  obtain k v where kv: "kv = (k, v)" by (cases kv)
  show ?case
  proof (cases "k \<in> set (keys (game_object_database s))")
    case True
    with Cons.prems kv obtain s1 where c: "commit_item cfg k v s = Some s1"
      and l: "commit_loop cfg check s1 = Some s'"
      by (auto split: option.splits)
    note p = commit_item_props [OF c]
    have a: "keys (game_object_database s1) = keys (game_object_database s)"
      by (simp add: p(1) keys_map_entry)
    have b: "all_at_snapshot s \<longrightarrow> all_at_snapshot s1"
      using commit_item_snapshot [OF _ c] by blast
    have d: "\<forall>key. key \<noteq> k \<longrightarrow> snapshot s1 key = snapshot s key"
      by (simp add: snapshot_def p(2) map_of_map_entry)
    from Cons.IH [OF l] a b d show ?thesis by (simp add: kv keys_def)
  next
    case False
    with Cons.prems kv have l: "commit_loop cfg check s = Some s'" by simp
    from Cons.IH [OF l] show ?thesis by (simp add: kv keys_def)
  qed
qed

lemma update_values_cases:
  assumes "update_values cfg check s = Some (b, s')"
  shows "meld_test (map snd check) = Some b"
    and "b \<Longrightarrow> commit_loop cfg check s = Some s'"
    and "\<not> b \<Longrightarrow> rollback s = Some s'"
  using assms by (auto simp: update_values_def split: option.splits if_splits)

lemma run_checks_props:
  "run_checks cfg check_sum s = Some (status, s') \<Longrightarrow>
   keys (game_object_database s') = keys (game_object_database s) \<and>
   (all_at_snapshot s \<or> \<not> list_all (\<lambda>b. b) status \<longrightarrow> all_at_snapshot s') \<and>
   (\<forall>key. key \<notin> set (accepted_keys check_sum) \<longrightarrow> snapshot s' key = snapshot s key)"
proof (induction check_sum arbitrary: s status)
  case Nil
  then show ?case by simp
next
  case (Cons check check_sum)
  from Cons.prems obtain b s1 bs where
    u: "update_values cfg check s = Some (b, s1)"
    and r: "run_checks cfg check_sum s1 = Some (bs, s')"
    and st: "status = b # bs"
    by (auto split: option.splits)
  note ih = Cons.IH [OF r]
  note uc = update_values_cases [OF u]
  show ?case
  proof (cases b)
    case True
    note cl = commit_loop_props [OF uc(2) [OF True]]
    have acc: "accepted_keys (check # check_sum) = keys check @ accepted_keys check_sum"
      using uc(1) True by (simp add: accepted_keys_def)
    from cl ih show ?thesis unfolding acc st using True by auto
  next
    case False
    note rp = rollback_props [OF uc(3) [OF False]]
    have acc: "accepted_keys (check # check_sum) = accepted_keys check_sum"
      using uc(1) False by (simp add: accepted_keys_def)
    from rp ih show ?thesis unfolding acc st using False by (auto simp: snapshot_def)
  qed
qed

lemma build_check_sum_good:
  "sizes_ok pvs \<Longrightarrow> build_check_sum pvs rest cs s = Some (check_sum_from cs rest, s)"
  by (induction rest arbitrary: cs) (simp_all add: check_sum_from_def Let_def)

subsection \<open>Rejected clusters\<close>

text \<open>
  C1 (as amended). When the board holds clusters and the validation pass of check\_logic
  ends with a rejected cluster, every cluster has three to five tiles and every tile
  that does not belong to an accepted cluster is at the position that the
  pre-transaction snapshot records for it. (The tiles of accepted clusters are
  committed one cluster at a time.)
\<close>

theorem validate_rejection:
  assumes "get_tile_by_position (BIG_BOX cfg) s = Some permutation_values"
    and "permutation_values \<noteq> []"
    and "validate cfg s = Some (False, s')"
  shows "sizes_ok permutation_values \<and>
         (\<forall>key \<in> set (keys (game_object_database s')).
            contains ''images/tiles/1-15'' key \<longrightarrow>
            key \<notin> set (accepted_keys (check_sum_from [] permutation_values)) \<longrightarrow>
            tile_at s' key = snapshot s key)"
proof -
  from assms obtain check_sum s1 status where
    b: "build_check_sum permutation_values permutation_values [] s = Some (check_sum, s1)"
    and r: "run_checks cfg check_sum s1 = Some (status, s')"
    and f: "\<not> list_all (\<lambda>b. b) status"
    by (auto simp: validate_def validate_clusters_def split: option.splits)
  have ok: "sizes_ok permutation_values"
  proof (rule ccontr)
    assume bad: "\<not> sizes_ok permutation_values"
    from build_check_sum_bad [OF bad b] have "check_sum = []" by simp
    with r have "status = []" by simp
    with f show False by simp
  qed
  from b build_check_sum_good [OF ok, of permutation_values "[]" s]
  have cs: "check_sum = check_sum_from [] permutation_values" and s1: "s1 = s" by simp_all
  from run_checks_props [OF r] f
  have snap: "all_at_snapshot s'"
    and other: "\<forall>key. key \<notin> set (accepted_keys check_sum) \<longrightarrow> snapshot s' key = snapshot s1 key"
    by simp_all
  show ?thesis
  proof (intro conjI ballI impI)
    show "sizes_ok permutation_values" by (rule ok)
  next
    fix key assume "key \<in> set (keys (game_object_database s'))"
      and "contains ''images/tiles/1-15'' key"
      and "key \<notin> set (accepted_keys (check_sum_from [] permutation_values))"
    then show "tile_at s' key = snapshot s key"
      using snap other by (simp add: all_at_snapshot_def list_all_iff cs s1)
  qed
qed

theorem validate_rejection_witness:
  "tile_at ex_game_after ''images/tiles/1-15 RED/RED_4_1.png'' =
     snapshot ex_game ''images/tiles/1-15 RED/RED_4_1.png''"
proof -
  have g: "get_tile_by_position (BIG_BOX ex_cfg) ex_game = Some ex_clusters" by code_simp
  have ne: "ex_clusters \<noteq> []" by code_simp
  have v: "validate ex_cfg ex_game = Some (False, ex_game_after)" by code_simp
  have k: "''images/tiles/1-15 RED/RED_4_1.png'' \<in> set (keys (game_object_database ex_game_after))"
    by code_simp
  have t: "contains ''images/tiles/1-15'' ''images/tiles/1-15 RED/RED_4_1.png''"
    by code_simp
  have a: "''images/tiles/1-15 RED/RED_4_1.png'' \<notin> set (accepted_keys (check_sum_from [] ex_clusters))"
    by code_simp
  from validate_rejection [OF g ne v] k t a show ?thesis by blast
qed

text \<open>
  The claim as stated fails: on the first example board the second cluster is rejected,
  yet the BLACK five of the first cluster stays on the board at (100, 50) and is
  committed there, while its snapshot before the pass was (295, 574) on the rack.
\<close>

theorem validate_partial_commit:
  "get_tile_by_position (BIG_BOX ex_cfg) ex_game = Some ex_clusters \<and>
   validate ex_cfg ex_game = Some (False, ex_game_after) \<and>
   snapshot ex_game ''images/tiles/1-15 BLACK/BLACK_1_5.png'' = Some (295, 574) \<and>
   tile_at ex_game_after ''images/tiles/1-15 BLACK/BLACK_1_5.png'' = Some (100, 50) \<and>
   snapshot ex_game_after ''images/tiles/1-15 BLACK/BLACK_1_5.png'' = Some (100, 50)"
  by code_simp

subsection \<open>Validating a committed board again\<close>

lemma setdefault_append_items:
  "set (concat (map snd (setdefault_append k v d))) = insert v (set (concat (map snd d)))"
  by (induction k v d rule: setdefault_append.induct) auto

lemma dimensions_dict_items:
  "set (concat (map snd (foldl (\<lambda>d data_item. setdefault_append (g data_item) data_item d) acc xs))) =
   set (concat (map snd acc)) \<union> set xs"
proof (induction xs arbitrary: acc)
  case Nil
  then show ?case by simp
next
  case (Cons x xs)
  show ?case unfolding foldl_Cons Cons.IH setdefault_append_items by auto
qed

lemma pair_loop_items:
  "pair_loop row temp final filt = (temp', final', filt') \<Longrightarrow>
   set temp' \<union> set (concat final') \<union> set filt' \<subseteq>
   set row \<union> set temp \<union> set (concat final) \<union> set filt"
proof (induction row temp final filt rule: pair_loop.induct)
  case (1 a b rest temp_combination final_combinations filtering_list)
  show ?case
  proof (cases "snd (snd a) = snd (snd b) \<and>
         (fst (snd a) + 52 = fst (snd b) \<or> fst (snd a) - 52 = fst (snd b) \<or>
          fst (snd a) = fst (snd b) + 52 \<or> fst (snd a) = fst (snd b) - 52)")
    case True
    let ?t1 = "if a \<in> set temp_combination then temp_combination else temp_combination @ [a]"
    let ?t2 = "if b \<in> set ?t1 then ?t1 else ?t1 @ [b]"
    from True "1.prems" have p: "pair_loop (b # rest) ?t2 final_combinations filtering_list = (temp', final', filt')"
      by (simp add: Let_def)
    have "set temp' \<union> set (concat final') \<union> set filt' \<subseteq>
          set (b # rest) \<union> set ?t2 \<union> set (concat final_combinations) \<union> set filtering_list"
      using "1.IH"(1) [OF refl refl True refl refl p] .
    also have "\<dots> \<subseteq> set (a # b # rest) \<union> set temp_combination \<union> set (concat final_combinations) \<union> set filtering_list"
      by auto
    finally show ?thesis .
  next
    case False
    from "1.prems" have p: "pair_loop (b # rest) [] (final_combinations @ [temp_combination])
             (filtering_list @ [a, b]) = (temp', final', filt')"
      by (simp only: pair_loop.simps Let_def False if_False)
    have "set temp' \<union> set (concat final') \<union> set filt' \<subseteq>
          set (b # rest) \<union> set [] \<union> set (concat (final_combinations @ [temp_combination])) \<union> set (filtering_list @ [a, b])"
      using "1.IH"(2) [OF refl refl False p] .
    also have "\<dots> \<subseteq> set (a # b # rest) \<union> set temp_combination \<union> set (concat final_combinations) \<union> set filtering_list"
      by auto
    finally show ?thesis .
  qed
qed auto

lemma combine_rows_items:
  "combine_rows rows final filt = (final', filt') \<Longrightarrow>
   set (concat final') \<union> set filt' \<subseteq> set (concat rows) \<union> set (concat final) \<union> set filt"
proof (induction rows arbitrary: final filt)
  case Nil
  then show ?case by auto
next
  case (Cons row rows)
  obtain temp final1 filt1 where pl: "pair_loop row [] final filt = (temp, final1, filt1)"
    by (cases "pair_loop row [] final filt") auto
  let ?final2 = "if length row \<ge> 2 then final1 @ [temp] else final1"
  from Cons.prems pl have c: "combine_rows rows ?final2 filt1 = (final', filt')" by simp
  from pair_loop_items [OF pl]
  have a: "set temp \<union> set (concat final1) \<union> set filt1 \<subseteq> set row \<union> set (concat final) \<union> set filt"
    by simp
  from Cons.IH [OF c]
  have "set (concat final') \<union> set filt' \<subseteq> set (concat rows) \<union> set (concat ?final2) \<union> set filt1" .
  also have "\<dots> \<subseteq> set (concat rows) \<union> (set temp \<union> set (concat final1) \<union> set filt1)"
    by auto
  also have "\<dots> \<subseteq> set (concat (row # rows)) \<union> set (concat final) \<union> set filt"
    using a by auto
  finally show ?case .
qed

lemma remove_in_each_subset:
  "remove_in_each v combos fl = Some fl' \<Longrightarrow> set fl' \<subseteq> set fl"
proof (induction combos arbitrary: fl)
  case Nil
  then show ?case by simp
next
  case (Cons sub_list subs)
  show ?case
  proof (cases "v \<in> set sub_list")
    case True
    with Cons.prems have "remove_in_each v subs (remove1 v fl) = Some fl'"
      by (auto split: if_splits)
    from Cons.IH [OF this] have "set fl' \<subseteq> set (remove1 v fl)" .
    also have "\<dots> \<subseteq> set fl" by (rule set_remove1_subset)
    finally show ?thesis .
  next
    case False
    with Cons.prems have "remove_in_each v subs fl = Some fl'" by simp
    from Cons.IH [OF this] show ?thesis .
  qed
qed

lemma is_filtered_from_subset:
  "is_filtered_from idx combos fl = Some fl' \<Longrightarrow> set fl' \<subseteq> set fl"
proof (induction idx combos fl rule: is_filtered_from.induct)
  case (1 idx combos fl)
  show ?case
  proof (cases "idx < length fl")
    case True
    with "1.prems" obtain fl1 where r: "remove_in_each (fl ! idx) combos fl = Some fl1"
      and f: "is_filtered_from (Suc idx) combos fl1 = Some fl'"
      by (subst (asm) is_filtered_from.simps) (auto split: option.splits)
    from "1.IH" [OF True r f] remove_in_each_subset [OF r] show ?thesis by blast
  next
    case False
    with "1.prems" show ?thesis by (subst (asm) is_filtered_from.simps) simp
  qed
qed

lemma is_filtered_times_subset:
  "is_filtered_times n combos fl = Some fl' \<Longrightarrow> set fl' \<subseteq> set fl"
proof (induction n arbitrary: fl)
  case 0
  then show ?case by simp
next
  case (Suc n)
  from Suc.prems obtain fl1 where a: "is_filtered_from 0 combos fl = Some fl1"
    and b: "is_filtered_times n combos fl1 = Some fl'"
    by (auto split: option.splits)
  from Suc.IH [OF b] is_filtered_from_subset [OF a] show ?case by blast
qed

lemma get_tile_by_position_items:
  assumes "get_tile_by_position big_box s = Some permutation_values"
  shows "set (concat permutation_values) \<subseteq> set (data_list big_box (game_object_database s))"
proof -
  let ?sorted = "sort_key sort_by_dimensions (data_list big_box (game_object_database s))"
  let ?dd = "dimensions_dict ?sorted"
  let ?rows = "map (sort_key sort_by_dimensions) (filter (\<lambda>items. length items > 1) (map snd ?dd))"
  let ?remaining = "sort_key sort_by_dimensions (concat (filter (\<lambda>items. \<not> length items > 1) (map snd ?dd)))"
  have dd: "set (concat (map snd ?dd)) = set (data_list big_box (game_object_database s))"
    unfolding dimensions_dict_def dimensions_dict_items by simp
  have "set (concat (filter (\<lambda>items. length items > 1) (map snd ?dd))) \<subseteq> set (concat (map snd ?dd))"
    by auto
  moreover have "set (concat ?rows) = set (concat (filter (\<lambda>items. length items > 1) (map snd ?dd)))"
    by simp
  ultimately have rows: "set (concat ?rows) \<subseteq> set (data_list big_box (game_object_database s))"
    unfolding dd by simp
  have "set (concat (filter (\<lambda>items. \<not> length items > 1) (map snd ?dd))) \<subseteq> set (concat (map snd ?dd))"
    by auto
  then have remaining: "set ?remaining \<subseteq> set (data_list big_box (game_object_database s))"
    unfolding dd by simp
  obtain final filt where cr: "combine_rows ?rows [] [] = (final, filt)"
    by (cases "combine_rows ?rows [] []") auto
  from combine_rows_items [OF cr]
  have "set (concat final) \<union> set filt \<subseteq> set (concat ?rows)" by simp
  from this rows have ff: "set (concat final) \<union> set filt \<subseteq> set (data_list big_box (game_object_database s))"
    by (rule subset_trans)
  let ?fne = "filter (\<lambda>sublist. sublist \<noteq> []) final"
  from assms cr obtain fl where
    ft: "is_filtered_times 15 ?fne filt = Some fl"
    and pv: "permutation_values =
      (let final1 = ?fne @ map (\<lambda>filer_val. [filer_val]) fl;
           remaining1 = filter (\<lambda>item. count_list ?remaining item = 1) ?remaining;
           remaining2 = filter (\<lambda>item. item \<notin> set (concat final1)) remaining1
       in if length remaining2 > 0 then final1 @ [remaining2] else final1)"
    by (auto simp: get_tile_by_position_def Let_def split: option.splits)
  from is_filtered_times_subset [OF ft] ff
  have fl: "set fl \<subseteq> set (data_list big_box (game_object_database s))" by blast
  have "set (concat ?fne) \<subseteq> set (concat final)" by auto
  with ff have fne: "set (concat ?fne) \<subseteq> set (data_list big_box (game_object_database s))"
    by blast
  have single: "set (concat (map (\<lambda>filer_val. [filer_val]) fl)) = set fl" by (induction fl) auto
  define final1 where "final1 = ?fne @ map (\<lambda>filer_val. [filer_val]) fl"
  define remaining2 where "remaining2 =
     filter (\<lambda>item. item \<notin> set (concat final1)) (filter (\<lambda>item. count_list ?remaining item = 1) ?remaining)"
  have f1: "set (concat final1) \<subseteq> set (data_list big_box (game_object_database s))"
    using fne fl single by (simp add: final1_def)
  have "set remaining2 \<subseteq> set ?remaining" by (auto simp: remaining2_def)
  from this remaining have r2: "set remaining2 \<subseteq> set (data_list big_box (game_object_database s))"
    by (rule subset_trans)
  have "permutation_values = (if length remaining2 > 0 then final1 @ [remaining2] else final1)"
    unfolding pv final1_def remaining2_def Let_def ..
  with f1 r2 show ?thesis by (simp split: if_splits)
qed


lemma data_list_tile_at:
  assumes "distinct (keys (game_object_database s))"
    and "(key, pos) \<in> set (data_list big_box (game_object_database s))"
  shows "tile_at s key = Some pos"
proof -
  from assms(2) obtain r where "(key, r) \<in> set (game_object_database s)" and "pos = (rx r, ry r)"
    by (auto simp: data_list_def)
  with assms(1) show ?thesis by (simp add: tile_at_def keys_def)
qed

lemma set_update_subset: "set (AList.update k v al) \<subseteq> insert (k, v) (set al)"
  by (induction al) auto

lemma card_number_of_items:
  assumes "(key, v) \<in> set (card_number_of perm_values)"
  shows "(key, snd (snd v)) \<in> set perm_values"
proof -
  have "set (foldl (\<lambda>d kv. AList.update (fst kv) (g kv) d) acc pvs) \<subseteq>
        set acc \<union> (\<lambda>kv. (fst kv, g kv)) ` set pvs" for g :: "item \<Rightarrow> item_value" and acc pvs
  proof (induction pvs arbitrary: acc)
    case Nil
    then show ?case by simp
  next
    case (Cons kv pvs)
    have "set (foldl (\<lambda>d kv. AList.update (fst kv) (g kv) d) (AList.update (fst kv) (g kv) acc) pvs)
          \<subseteq> set (AList.update (fst kv) (g kv) acc) \<union> (\<lambda>kv. (fst kv, g kv)) ` set pvs"
      by (rule Cons.IH)
    also have "\<dots> \<subseteq> insert (fst kv, g kv) (set acc) \<union> (\<lambda>kv. (fst kv, g kv)) ` set pvs"
      using set_update_subset [of "fst kv" "g kv" acc] by blast
    finally show ?case by auto
  qed
  from this [of "\<lambda>kv. (fst (parse_card (fst kv)), snd (parse_card (fst kv)), snd kv)" "[]" perm_values] assms
  show ?thesis by (auto simp: card_number_of_def)
qed

lemma check_sum_from_members:
  "check \<in> set (check_sum_from cs pvs) \<Longrightarrow> check \<in> set cs \<or> check \<in> card_number_of ` set pvs"
proof (induction pvs arbitrary: cs)
  case Nil
  then show ?case by (simp add: check_sum_from_def)
next
  case (Cons pv pvs)
  let ?cs1 = "if list_ex (dict_eq (card_number_of pv)) cs then cs else cs @ [card_number_of pv]"
  from Cons.prems have "check \<in> set (check_sum_from ?cs1 pvs)" by (simp add: check_sum_from_def)
  from Cons.IH [OF this] show ?case by (auto split: if_splits)
qed

lemma check_sum_current:
  assumes "distinct (keys (game_object_database s))"
    and "get_tile_by_position big_box s = Some permutation_values"
    and "check \<in> set (check_sum_from [] permutation_values)"
  shows "current check s"
  unfolding current_def
proof
  fix kv assume kv: "kv \<in> set check"
  from check_sum_from_members [OF assms(3)] obtain pv where pv: "pv \<in> set permutation_values"
    and c: "check = card_number_of pv" by auto
  from kv c have "(fst kv, snd kv) \<in> set (card_number_of pv)" by simp
  from card_number_of_items [OF this] have "(fst kv, snd (snd (snd kv))) \<in> set pv" .
  with pv have "(fst kv, snd (snd (snd kv))) \<in> set (concat permutation_values)" by auto
  with get_tile_by_position_items [OF assms(2)]
  have "(fst kv, snd (snd (snd kv))) \<in> set (data_list big_box (game_object_database s))" by blast
  from data_list_tile_at [OF assms(1) this] show "tile_at s (fst kv) = Some (snd (snd (snd kv)))" .
qed

lemma map_entry_id: "map_of al k = Some v \<Longrightarrow> f v = v \<Longrightarrow> AList.map_entry k f al = al"
  by (induction al) (auto split: if_splits)

lemma tile_at_map_entry_id:
  assumes "tile_at s k = Some (x, y)"
  shows "AList.map_entry k (\<lambda>r. set_xy r x y) (game_object_database s) = game_object_database s"
proof -
  from assms obtain r where r: "map_of (game_object_database s) k = Some r" and "rx r = x" "ry r = y"
    by (auto simp: tile_at_def)
  then have "set_xy r x y = r" by (cases r) (simp add: set_xy_def)
  with r show ?thesis by (rule map_entry_id)
qed

lemma map_entry_shared:
  assumes "(key, Shared) \<in> set (AList.map_entry k (\<lambda>ref. case ref of Shared \<Rightarrow> Shared | Own r \<Rightarrow> Own (f r)) al)"
  shows "(key, Shared) \<in> set al"
  using assms by (induction al) (auto split: if_splits rect_ref.splits)

lemma key_deletion_some:
  "(\<forall>kv \<in> set p1. p1_rect s (fst kv) (snd kv) \<noteq> None) \<Longrightarrow>
   \<exists>ks. key_deletion cfg a b s p1 = Some ks"
  by (induction p1) (auto split: option.splits)

lemma wf_game_p1:
  assumes "wf_game s" and "game_object_database s' = game_object_database s"
    and "\<forall>key. (key, Shared) \<in> set (PLAYER_1 s') \<longrightarrow> (key, Shared) \<in> set (PLAYER_1 s)"
  shows "wf_game s'"
  using assms unfolding wf_game_def list_all_iff by (metis prod.collapse fst_conv snd_conv)


lemma commit_item_again:
  assumes wf: "wf_game s"
    and at: "tile_at s k = Some (snd (snd v))"
    and img: "snapshot s k \<noteq> None"
  shows "\<exists>s'. commit_item cfg k v s = Some s' \<and>
           game_object_database s' = game_object_database s \<and>
           image_database s' = AList.map_entry k (\<lambda>_. snd (snd v)) (image_database s) \<and>
           wf_game s'"
proof -
  let ?x = "fst (snd (snd v))" and ?y = "snd (snd (snd v))"
  let ?p1 = "AList.map_entry k (\<lambda>ref. case ref of Shared \<Rightarrow> Shared | Own r \<Rightarrow> Own (set_xy r ?x ?y)) (PLAYER_1 s)"
  let ?s4 = "s\<lparr>PLAYER_1 := ?p1,
               PLAYER_2 := AList.map_entry k (\<lambda>r. set_xy r ?x ?y) (PLAYER_2 s),
               game_object_database := AList.map_entry k (\<lambda>r. set_xy r ?x ?y) (game_object_database s),
               image_database := AList.map_entry k (\<lambda>_. (?x, ?y)) (image_database s)\<rparr>"
  from at have god: "AList.map_entry k (\<lambda>r. set_xy r ?x ?y) (game_object_database s) = game_object_database s"
    by (intro tile_at_map_entry_id) simp
  from wf obtain rack where rack: "map_of (game_object_database s) ''brown_rack_image_tile2'' = Some rack"
    by (auto simp: wf_game_def keys_def dest!: weak_map_of_SomeI)
  have shared: "\<forall>key. (key, Shared) \<in> set ?p1 \<longrightarrow> (key, Shared) \<in> set (PLAYER_1 s)"
    by (auto dest: map_entry_shared)
  have "\<forall>kv \<in> set ?p1. p1_rect ?s4 (fst kv) (snd kv) \<noteq> None"
  proof
    fix kv assume kv: "kv \<in> set ?p1"
    show "p1_rect ?s4 (fst kv) (snd kv) \<noteq> None"
    proof (cases "snd kv")
      case Shared
      with kv have "(fst kv, Shared) \<in> set ?p1" by (metis prod.collapse)
      with shared have "(fst kv, Shared) \<in> set (PLAYER_1 s)" by blast
      with wf have "fst kv \<in> set (keys (game_object_database s))"
        by (auto simp: wf_game_def list_all_iff)
      then obtain r where "map_of (game_object_database s) (fst kv) = Some r"
        by (auto simp: keys_def dest!: weak_map_of_SomeI)
      with Shared show ?thesis by (simp add: p1_rect_def god)
    next
      case (Own r)
      then show ?thesis by (simp add: p1_rect_def)
    qed
  qed
  from key_deletion_some [OF this] obtain ks where
    ks: "key_deletion cfg (rw rack, rh rack) (rx rack, ry rack) ?s4 ?p1 = Some ks" by blast
  let ?s' = "?s4\<lparr>PLAYER_1 := filter (\<lambda>kv. fst kv \<notin> set ks) ?p1\<rparr>"
  from img obtain xy where xy: "map_of (image_database s) k = Some xy"
    by (auto simp: snapshot_def)
  have c: "commit_item cfg k v s = Some ?s'"
    using xy rack ks by (simp add: commit_item_def Let_def god update_score_def)
  have g: "game_object_database ?s' = game_object_database s" by (simp add: god)
  have "wf_game ?s'"
  proof (rule wf_game_p1 [OF wf g])
    show "\<forall>key. (key, Shared) \<in> set (PLAYER_1 ?s') \<longrightarrow> (key, Shared) \<in> set (PLAYER_1 s)"
      using shared by simp
  qed
  with c g show ?thesis by simp
qed

lemma commit_loop_again:
  "wf_game s \<Longrightarrow> current check s \<Longrightarrow> (\<forall>kv \<in> set check. snapshot s (fst kv) \<noteq> None) \<Longrightarrow>
   \<exists>s'. commit_loop cfg check s = Some s' \<and>
        game_object_database s' = game_object_database s \<and> wf_game s' \<and>
        (\<forall>key. snapshot s' key =
           (if key \<in> set (keys check) then tile_at s key else snapshot s key))"
proof (induction check arbitrary: s)
  case Nil
  then show ?case by (simp add: keys_def)
next
  case (Cons kv check)
  obtain k v where kv: "kv = (k, v)" by (cases kv)
  from Cons.prems(2) kv have at: "tile_at s k = Some (snd (snd v))"
    and cur: "current check s" by (simp_all add: current_def)
  from Cons.prems(3) kv have img: "snapshot s k \<noteq> None"
    and imgs: "\<forall>kv \<in> set check. snapshot s (fst kv) \<noteq> None" by simp_all
  from at have ingod: "k \<in> set (keys (game_object_database s))"
    by (auto simp: tile_at_def keys_def dest: map_of_SomeD intro: rev_image_eqI)
  from commit_item_again [OF Cons.prems(1) at img, of cfg] obtain s1 where
    c: "commit_item cfg k v s = Some s1"
    and g: "game_object_database s1 = game_object_database s"
    and i: "image_database s1 = AList.map_entry k (\<lambda>_. snd (snd v)) (image_database s)"
    and w: "wf_game s1" by blast
  have tile: "tile_at s1 = tile_at s" by (rule ext) (simp add: tile_at_def g)
  have snap1: "\<forall>key. snapshot s1 key = (if key = k then tile_at s k else snapshot s key)"
    using img at by (auto simp: snapshot_def i map_of_map_entry)
  have cur1: "current check s1" using cur by (simp add: current_def tile)
  have imgs1: "\<forall>kv \<in> set check. snapshot s1 (fst kv) \<noteq> None"
    using imgs snap1 at by auto
  from Cons.IH [OF w cur1 imgs1] obtain s' where
    l: "commit_loop cfg check s1 = Some s'"
    and g': "game_object_database s' = game_object_database s1"
    and w': "wf_game s'"
    and snap': "\<forall>key. snapshot s' key = (if key \<in> set (keys check) then tile_at s1 key else snapshot s1 key)"
    by blast
  have "commit_loop cfg (kv # check) s = Some s'" using kv ingod c l by simp
  moreover have "\<forall>key. snapshot s' key =
      (if key \<in> set (keys (kv # check)) then tile_at s key else snapshot s key)"
    using snap' snap1 by (simp add: tile kv keys_def)
  ultimately show ?case using g g' w' by simp
qed

lemma commit_loop_unique:
  assumes "wf_game s" "current check s" "commit_loop cfg check s = Some s'"
  shows "game_object_database s' = game_object_database s \<and> wf_game s' \<and>
         (\<forall>key. snapshot s' key = (if key \<in> set (keys check) then tile_at s key else snapshot s key))"
proof -
  have "\<forall>kv \<in> set check. snapshot s (fst kv) \<noteq> None"
    using assms
  proof (induction check arbitrary: s)
    case Nil
    then show ?case by simp
  next
    case (Cons kv check)
    obtain k v where kv: "kv = (k, v)" by (cases kv)
    from Cons.prems(2) kv have at: "tile_at s k = Some (snd (snd v))"
      and cur: "current check s" by (simp_all add: current_def)
    from at have ingod: "k \<in> set (keys (game_object_database s))"
      by (auto simp: tile_at_def keys_def dest: map_of_SomeD intro: rev_image_eqI)
    with Cons.prems(3) kv obtain s1 where c: "commit_item cfg k v s = Some s1"
      and l: "commit_loop cfg check s1 = Some s'" by (auto split: option.splits)
    note p = commit_item_props [OF c]
    from p(3) have img: "snapshot s k \<noteq> None" by (simp add: snapshot_def)
    from commit_item_again [OF Cons.prems(1) at img, of cfg] c
    have g: "game_object_database s1 = game_object_database s" and w: "wf_game s1" by auto
    have cur1: "current check s1" using cur by (simp add: current_def tile_at_def g)
    from Cons.IH [OF w cur1 l] have "\<forall>kv\<in>set check. snapshot s1 (fst kv) \<noteq> None" .
    then have "\<forall>kv\<in>set check. snapshot s (fst kv) \<noteq> None"
      by (auto simp: snapshot_def p(2) map_of_map_entry split: if_splits option.splits)
    with img kv show ?case by simp
  qed
  from commit_loop_again [OF assms(1,2) this, of cfg] assms(3) show ?thesis by auto
qed


lemma commit_loop_same:
  "wf_game s \<Longrightarrow> current check s \<Longrightarrow>
   (\<forall>kv \<in> set check. snapshot s (fst kv) = tile_at s (fst kv)) \<Longrightarrow>
   \<exists>s'. commit_loop cfg check s = Some s' \<and>
        game_object_database s' = game_object_database s \<and>
        image_database s' = image_database s \<and> wf_game s'"
proof (induction check arbitrary: s)
  case Nil
  then show ?case by simp
next
  case (Cons kv check)
  obtain k v where kv: "kv = (k, v)" by (cases kv)
  from Cons.prems(2) kv have at: "tile_at s k = Some (snd (snd v))"
    and cur: "current check s" by (simp_all add: current_def)
  from Cons.prems(3) kv at have img: "snapshot s k = Some (snd (snd v))"
    and imgs: "\<forall>kv \<in> set check. snapshot s (fst kv) = tile_at s (fst kv)" by simp_all
  from at have ingod: "k \<in> set (keys (game_object_database s))"
    by (auto simp: tile_at_def keys_def dest: map_of_SomeD intro: rev_image_eqI)
  from img have ne: "snapshot s k \<noteq> None" by simp
  from commit_item_again [OF Cons.prems(1) at ne, of cfg] obtain s1 where
    c: "commit_item cfg k v s = Some s1"
    and g: "game_object_database s1 = game_object_database s"
    and i: "image_database s1 = AList.map_entry k (\<lambda>_. snd (snd v)) (image_database s)"
    and w: "wf_game s1" by blast
  from img have "AList.map_entry k (\<lambda>_. snd (snd v)) (image_database s) = image_database s"
    by (intro map_entry_id) (simp_all add: snapshot_def)
  with i have i1: "image_database s1 = image_database s" by simp
  have cur1: "current check s1" using cur by (simp add: current_def tile_at_def g)
  have imgs1: "\<forall>kv \<in> set check. snapshot s1 (fst kv) = tile_at s1 (fst kv)"
    using imgs by (simp add: snapshot_def tile_at_def g i1)
  from Cons.IH [OF w cur1 imgs1] obtain s' where
    "commit_loop cfg check s1 = Some s'" "game_object_database s' = game_object_database s1"
    "image_database s' = image_database s1" "wf_game s'" by blast
  with kv ingod c g i1 show ?case by simp
qed

lemma run_checks_first:
  "wf_game s \<Longrightarrow> (\<forall>check \<in> set check_sum. current check s) \<Longrightarrow>
   run_checks cfg check_sum s = Some (status, s') \<Longrightarrow> list_all (\<lambda>b. b) status \<Longrightarrow>
   game_object_database s' = game_object_database s \<and> wf_game s' \<and>
   (\<forall>check \<in> set check_sum. meld_test (map snd check) = Some True) \<and>
   (\<forall>key. snapshot s' key =
      (if key \<in> set (concat (map keys check_sum)) then tile_at s key else snapshot s key))"
proof (induction check_sum arbitrary: s status)
  case Nil
  then show ?case by simp
next
  case (Cons check check_sum)
  from Cons.prems(3) obtain b s1 bs where
    u: "update_values cfg check s = Some (b, s1)"
    and r: "run_checks cfg check_sum s1 = Some (bs, s')"
    and st: "status = b # bs"
    by (auto split: option.splits)
  from Cons.prems(4) st have b: "b" and bs: "list_all (\<lambda>b. b) bs" by simp_all
  note uc = update_values_cases [OF u]
  from Cons.prems(2) have cur: "current check s" by simp
  from commit_loop_unique [OF Cons.prems(1) cur uc(2) [OF b]]
  have g: "game_object_database s1 = game_object_database s" and w: "wf_game s1"
    and snap1: "\<forall>key. snapshot s1 key = (if key \<in> set (keys check) then tile_at s key else snapshot s key)"
    by simp_all
  have tile: "tile_at s1 = tile_at s" by (rule ext) (simp add: tile_at_def g)
  have cur1: "\<forall>check \<in> set check_sum. current check s1"
    using Cons.prems(2) by (simp add: current_def tile)
  from Cons.IH [OF w cur1 r bs]
  have ih: "game_object_database s' = game_object_database s1" "wf_game s'"
    "\<forall>check \<in> set check_sum. meld_test (map snd check) = Some True"
    "\<forall>key. snapshot s' key =
       (if key \<in> set (concat (map keys check_sum)) then tile_at s1 key else snapshot s1 key)"
    by simp_all
  from uc(1) b have m: "meld_test (map snd check) = Some True" by simp
  show ?case using ih g m snap1 by (auto simp: tile)
qed

lemma run_checks_again:
  "wf_game s \<Longrightarrow>
   (\<forall>check \<in> set check_sum. current check s \<and> meld_test (map snd check) = Some True \<and>
      (\<forall>kv \<in> set check. snapshot s (fst kv) = tile_at s (fst kv))) \<Longrightarrow>
   \<exists>s'. run_checks cfg check_sum s = Some (map (\<lambda>_. True) check_sum, s') \<and>
        game_object_database s' = game_object_database s \<and>
        image_database s' = image_database s"
proof (induction check_sum arbitrary: s)
  case Nil
  then show ?case by simp
next
  case (Cons check check_sum)
  from Cons.prems(2) have cur: "current check s" and m: "meld_test (map snd check) = Some True"
    and sn: "\<forall>kv \<in> set check. snapshot s (fst kv) = tile_at s (fst kv)" by simp_all
  from commit_loop_same [OF Cons.prems(1) cur sn, of cfg] obtain s1 where
    c: "commit_loop cfg check s = Some s1" and g: "game_object_database s1 = game_object_database s"
    and i: "image_database s1 = image_database s" and w: "wf_game s1" by blast
  have u: "update_values cfg check s = Some (True, s1)" using m c by (simp add: update_values_def)
  have rest: "\<forall>check \<in> set check_sum. current check s1 \<and> meld_test (map snd check) = Some True \<and>
      (\<forall>kv \<in> set check. snapshot s1 (fst kv) = tile_at s1 (fst kv))"
    using Cons.prems(2) by (simp add: current_def snapshot_def tile_at_def g i)
  from Cons.IH [OF w rest] obtain s' where
    "run_checks cfg check_sum s1 = Some (map (\<lambda>_. True) check_sum, s')"
    "game_object_database s' = game_object_database s1" "image_database s' = image_database s1"
    by blast
  with u g i show ?case by simp
qed

text \<open>
  C4. When a validation pass succeeds (the board holds clusters, each of three to five
  tiles, and each is accepted), a second pass on the resulting board succeeds as well and
  changes neither the position of any tile nor any committed position.
\<close>

theorem validate_idempotent:
  assumes "wf_game s"
    and "get_tile_by_position (BIG_BOX cfg) s = Some permutation_values"
    and "sizes_ok permutation_values"
    and "validate cfg s = Some (True, s1)"
  shows "\<exists>s2. validate cfg s1 = Some (True, s2) \<and>
           game_object_database s2 = game_object_database s1 \<and>
           image_database s2 = image_database s1"
proof -
  let ?cs = "check_sum_from [] permutation_values"
  have ne: "permutation_values \<noteq> []"
    using assms(2,4) by (auto simp: validate_def validate_clusters_def)
  note b = build_check_sum_good [OF assms(3), of permutation_values "[]"]
  from assms(2,4) ne b obtain status where
    r: "run_checks cfg ?cs s = Some (status, s1)" and f: "list_all (\<lambda>b. b) status"
    by (auto simp: validate_def validate_clusters_def split: option.splits)
  from assms(1) have d: "distinct (keys (game_object_database s))" by (simp add: wf_game_def)
  have cur: "\<forall>check \<in> set ?cs. current check s"
    using check_sum_current [OF d assms(2)] by blast
  from run_checks_first [OF assms(1) cur r f]
  have g: "game_object_database s1 = game_object_database s" and w: "wf_game s1"
    and m: "\<forall>check \<in> set ?cs. meld_test (map snd check) = Some True"
    and sn: "\<forall>key. snapshot s1 key =
      (if key \<in> set (concat (map keys ?cs)) then tile_at s key else snapshot s key)"
    by simp_all
  have tile: "tile_at s1 = tile_at s" by (rule ext) (simp add: tile_at_def g)
  have pv1: "get_tile_by_position (BIG_BOX cfg) s1 = Some permutation_values"
    using assms(2) by (simp add: get_tile_by_position_def g)
  have again: "\<forall>check \<in> set ?cs. current check s1 \<and> meld_test (map snd check) = Some True \<and>
      (\<forall>kv \<in> set check. snapshot s1 (fst kv) = tile_at s1 (fst kv))"
  proof
    fix check assume c: "check \<in> set ?cs"
    have "snapshot s1 (fst kv) = tile_at s1 (fst kv)" if "kv \<in> set check" for kv
    proof -
      from that c have "fst kv \<in> set (concat (map keys ?cs))" by (auto simp: keys_def)
      with sn show ?thesis by (simp add: tile)
    qed
    with c cur m show "current check s1 \<and> meld_test (map snd check) = Some True \<and>
      (\<forall>kv \<in> set check. snapshot s1 (fst kv) = tile_at s1 (fst kv))"
      by (simp add: current_def tile)
  qed
  from run_checks_again [OF w again, of cfg] obtain s2 where
    r2: "run_checks cfg ?cs s1 = Some (map (\<lambda>_. True) ?cs, s2)"
    and g2: "game_object_database s2 = game_object_database s1"
    and i2: "image_database s2 = image_database s1" by blast
  have "list_all (\<lambda>b. b) (map (\<lambda>_. True) ?cs)" by (simp add: list_all_iff)
  with r2 have "validate cfg s1 = Some (True, s2)"
    using pv1 ne build_check_sum_good [OF assms(3), of permutation_values "[]" s1]
    by (simp add: validate_def validate_clusters_def)
  with g2 i2 show ?thesis by blast
qed

theorem validate_idempotent_witness:
  "wf_game ex_group \<and> sizes_ok ex_group_clusters \<and>
   validate ex_cfg ex_group = Some (True, ex_group_after) \<and>
   map_option fst (validate ex_cfg ex_group_after) = Some True"
proof -
  have w: "wf_game ex_group" by code_simp
  have g: "get_tile_by_position (BIG_BOX ex_cfg) ex_group = Some ex_group_clusters" by code_simp
  have z: "sizes_ok ex_group_clusters" by code_simp
  have v: "validate ex_cfg ex_group = Some (True, ex_group_after)" by code_simp
  from validate_idempotent [OF w g z v] obtain s2 where
    "validate ex_cfg ex_group_after = Some (True, s2)" by blast
  with w z v show ?thesis by simp
qed

subsection \<open>The opponent's turn\<close>

lemma split_parity_props:
  "split_parity items = Some (odd_sequence, even_sequence) \<Longrightarrow>
   (\<forall>item \<in> set even_sequence. even (ai_number item)) \<and>
   (\<forall>item \<in> set odd_sequence. odd (ai_number item)) \<and>
   set odd_sequence \<union> set even_sequence = set items"
proof (induction items arbitrary: odd_sequence even_sequence)
  case Nil
  then show ?case by simp
next
  case (Cons item rest)
  from Cons.prems obtain n od ev where n: "py_int (ai_card item) = Some n"
    and r: "split_parity rest = Some (od, ev)"
    and res: "(odd_sequence, even_sequence) = (if n mod 2 = 0 then (od, item # ev) else (item # od, ev))"
    by (auto split: option.splits if_splits)
  from Cons.IH [OF r] have ih: "\<forall>item \<in> set ev. even (ai_number item)"
    "\<forall>item \<in> set od. odd (ai_number item)" "set od \<union> set ev = set rest" by simp_all
  have num: "ai_number item = n" using n by (simp add: ai_number_def)
  show ?case
  proof (cases "n mod 2 = 0")
    case True
    with res have "odd_sequence = od" "even_sequence = item # ev" by simp_all
    with ih num True show ?thesis by auto
  next
    case False
    with res have "odd_sequence = item # od" "even_sequence = ev" by simp_all
    with ih num False show ?thesis by auto
  qed
qed

lemma setdefault_append_color:
  "(\<forall>g \<in> set d. \<forall>item \<in> set (snd g). ai_color item = fst g) \<Longrightarrow> ai_color v = k \<Longrightarrow>
   (\<forall>g \<in> set (setdefault_append k v d). \<forall>item \<in> set (snd g). ai_color item = fst g)"
proof (induction k v d rule: setdefault_append.induct)
  case (1 k v)
  then show ?case by simp
next
  case (2 k v k' vs rest)
  show ?case
  proof (cases "k' = k")
    case True
    with "2.prems" show ?thesis by auto
  next
    case False
    from "2.prems" have "\<forall>g \<in> set rest. \<forall>item \<in> set (snd g). ai_color item = fst g" by simp
    from "2.IH" [OF False this "2.prems"(2)] "2.prems"(1) False show ?thesis by simp
  qed
qed

lemma color_grouped_step:
  "color_grouped d \<Longrightarrow> color_grouped (setdefault_append (ai_color v) v d)"
  unfolding color_grouped_def by (rule setdefault_append_color) simp_all

lemma foldl_setdefault_color:
  "color_grouped acc \<Longrightarrow>
   color_grouped (foldl (\<lambda>grouped_tiles tile. setdefault_append (ai_color tile) tile grouped_tiles) acc xs)"
proof (induction xs arbitrary: acc)
  case Nil
  then show ?case by simp
next
  case (Cons x xs)
  have "color_grouped (setdefault_append (ai_color x) x acc)"
    using Cons.prems by (rule color_grouped_step)
  then have "color_grouped (foldl (\<lambda>grouped_tiles tile. setdefault_append (ai_color tile) tile grouped_tiles)
      (setdefault_append (ai_color x) x acc) xs)"
    by (rule Cons.IH)
  then show ?case by (simp only: foldl_Cons)
qed


lemma group_tiles_by_integer_props:
  assumes "g \<in> set (group_tiles_by_integer tile_list)"
  shows "set (snd g) \<subseteq> set tile_list" and "\<forall>item \<in> set (snd g). ai_color item = fst g"
    and "sorted (map ai_number (snd g))"
proof -
  let ?d = "foldl (\<lambda>grouped_tiles tile. setdefault_append (ai_color tile) tile grouped_tiles) [] tile_list"
  from assms obtain g0 where g0: "g0 \<in> set ?d" and g: "g = (fst g0, sort_key ai_number (snd g0))"
    by (auto simp: group_tiles_by_integer_def)
  have "set (concat (map snd ?d)) = set tile_list"
    using dimensions_dict_items [of ai_color "[]" tile_list] by simp
  with g0 have "set (snd g0) \<subseteq> set tile_list" by auto
  then show "set (snd g) \<subseteq> set tile_list" by (simp add: g)
  have "color_grouped []" by (simp add: color_grouped_def)
  then have "color_grouped ?d" by (rule foldl_setdefault_color)
  then have "\<forall>g \<in> set ?d. \<forall>item \<in> set (snd g). ai_color item = fst g"
    by (simp add: color_grouped_def)
  with g0 show "\<forall>item \<in> set (snd g). ai_color item = fst g" by (simp add: g)
  show "sorted (map ai_number (snd g))" by (simp add: g)
qed

lemma ai_groups_props:
  assumes "ai_groups p2 = Some (ev, od)"
  shows "\<forall>g \<in> set ev. (\<forall>item \<in> set (snd g). ai_color item = fst g \<and> even (ai_number item)) \<and>
                        sorted (map ai_number (snd g))"
    and "\<forall>g \<in> set od. (\<forall>item \<in> set (snd g). ai_color item = fst g \<and> odd (ai_number item)) \<and>
                        sorted (map ai_number (snd g))"
proof -
  from assms obtain odd_sequence even_sequence where
    sp: "split_parity (card_number_ai p2) = Some (odd_sequence, even_sequence)"
    and ev: "ev = group_tiles_by_integer (sort_key (\<lambda>item. (ai_color item, ai_number item)) even_sequence)"
    and od: "od = group_tiles_by_integer (sort_key (\<lambda>item. (ai_color item, ai_number item)) odd_sequence)"
    by (auto simp: ai_groups_def split: option.splits)
  note p = split_parity_props [OF sp]
  show "\<forall>g \<in> set ev. (\<forall>item \<in> set (snd g). ai_color item = fst g \<and> even (ai_number item)) \<and>
                        sorted (map ai_number (snd g))"
  proof
    fix g assume "g \<in> set ev"
    then have g: "g \<in> set (group_tiles_by_integer (sort_key (\<lambda>item. (ai_color item, ai_number item)) even_sequence))"
      by (simp add: ev)
    from group_tiles_by_integer_props [OF g] p
    show "(\<forall>item \<in> set (snd g). ai_color item = fst g \<and> even (ai_number item)) \<and>
          sorted (map ai_number (snd g))" by auto
  qed
  show "\<forall>g \<in> set od. (\<forall>item \<in> set (snd g). ai_color item = fst g \<and> odd (ai_number item)) \<and>
                        sorted (map ai_number (snd g))"
  proof
    fix g assume "g \<in> set od"
    then have g: "g \<in> set (group_tiles_by_integer (sort_key (\<lambda>item. (ai_color item, ai_number item)) odd_sequence))"
      by (simp add: od)
    from group_tiles_by_integer_props [OF g] p
    show "(\<forall>item \<in> set (snd g). ai_color item = fst g \<and> odd (ai_number item)) \<and>
          sorted (map ai_number (snd g))" by auto
  qed
qed

lemma played_melds_shape:
  assumes "played_melds p2 = Some melds" and "m \<in> set melds"
  shows "parity_meld m"
proof -
  from assms(1) obtain ev od where a: "ai_groups p2 = Some (ev, od)"
    and melds: "melds = filter playable (map snd ev) @ filter playable (map snd od)"
    by (auto simp: played_melds_def split: option.splits)
  note p = ai_groups_props [OF a]
  from assms(2) melds have pl: "playable m" by auto
  then have ne: "m \<noteq> []" by (auto simp: playable_def)
  from assms(2) melds consider g where "g \<in> set ev" "m = snd g" | g where "g \<in> set od" "m = snd g"
    by auto
  then show ?thesis
  proof cases
    case 1
    with p(1) have c: "\<forall>item \<in> set m. ai_color item = fst g \<and> even (ai_number item)"
      and s: "sorted (map ai_number m)" by auto
    from c ne have "ai_color (hd m) = fst g" by simp
    with c s pl show ?thesis by (auto simp: parity_meld_def playable_def list_all_iff)
  next
    case 2
    with p(2) have c: "\<forall>item \<in> set m. ai_color item = fst g \<and> odd (ai_number item)"
      and s: "sorted (map ai_number m)" by auto
    from c ne have "ai_color (hd m) = fst g" by simp
    with c s pl show ?thesis by (auto simp: parity_meld_def playable_def list_all_iff)
  qed
qed

lemma keys_update: "set (keys (AList.update k v al)) = insert k (set (keys al))"
  by (induction al) (auto simp: keys_def)

lemma place_group_props:
  "place_group items c_x c_y s = (c_x', s') \<Longrightarrow>
   set (keys (game_object_database s')) = set (keys (game_object_database s)) \<union> set (map fst items) \<and>
   PLAYER_1 s' = PLAYER_1 s \<and> keys (PLAYER_2 s') = keys (PLAYER_2 s)"
proof (induction items c_x c_y s rule: place_group.induct)
  case (1 c_x c_y s)
  then show ?case by simp
next
  case (2 v rest c_x c_y s)
  let ?s1 = "s\<lparr>PLAYER_2 := AList.map_entry (fst v) (\<lambda>r. set_xy r c_x c_y) (PLAYER_2 s),
          game_object_database :=
            AList.update (fst v) (set_xy (snd (snd (snd v))) c_x c_y) (game_object_database s),
          image_database := AList.update (fst v) (c_x, c_y) (image_database s)\<rparr>"
  from "2.prems" have "place_group rest (c_x + 52) c_y ?s1 = (c_x', s')"
    by (simp only: place_group.simps)
  from "2.IH" [OF this]
  have ih: "set (keys (game_object_database s')) = set (keys (game_object_database ?s1)) \<union> set (map fst rest)"
    "PLAYER_1 s' = PLAYER_1 ?s1" "keys (PLAYER_2 s') = keys (PLAYER_2 ?s1)" by blast+
  have a: "set (keys (game_object_database ?s1)) = insert (fst v) (set (keys (game_object_database s)))"
    by (simp add: keys_update)
  have b: "PLAYER_1 ?s1 = PLAYER_1 s" by simp
  have c: "keys (PLAYER_2 ?s1) = keys (PLAYER_2 s)" by (simp add: keys_map_entry)
  show ?case unfolding ih a b c by auto
qed


lemma place_groups_props:
  "place_groups groups c_x c_y s ktd np = (c_x', s', ktd', np') \<Longrightarrow>
   set (keys (game_object_database s')) =
     set (keys (game_object_database s)) \<union> set (concat (map (map fst) (filter playable (map snd groups)))) \<and>
   ktd' = ktd @ concat (map (map fst) (filter playable (map snd groups))) \<and>
   np' = (np \<and> \<not> list_ex playable (map snd groups)) \<and>
   PLAYER_1 s' = PLAYER_1 s \<and> keys (PLAYER_2 s') = keys (PLAYER_2 s) \<and>
   (\<not> list_ex playable (map snd groups) \<longrightarrow> s' = s)"
proof (induction groups c_x c_y s ktd np rule: place_groups.induct)
  case (1 c_x c_y s keys_to_delete is_not_playable)
  then show ?case by simp
next
  case (2 key items rest c_x c_y s keys_to_delete is_not_playable)
  show ?case
  proof (cases "playable items")
    case True
    obtain c1 s1 where pg: "place_group items c_x c_y s = (c1, s1)"
      by (cases "place_group items c_x c_y s")
    from "2.prems" have r: "place_groups rest (c1 + 52) c_y s1 (keys_to_delete @ map fst items) False = (c_x', s', ktd', np')"
      by (simp only: place_groups.simps True if_True pg prod.case)
    from "2.IH"(1) [OF True pg [symmetric] r]
    have ih: "set (keys (game_object_database s')) =
        set (keys (game_object_database s1)) \<union> set (concat (map (map fst) (filter playable (map snd rest))))"
      "ktd' = (keys_to_delete @ map fst items) @ concat (map (map fst) (filter playable (map snd rest)))"
      "np' = False" "PLAYER_1 s' = PLAYER_1 s1" "keys (PLAYER_2 s') = keys (PLAYER_2 s1)"
      by simp_all
    from place_group_props [OF pg]
    have p: "set (keys (game_object_database s1)) = set (keys (game_object_database s)) \<union> set (map fst items)"
      "PLAYER_1 s1 = PLAYER_1 s" "keys (PLAYER_2 s1) = keys (PLAYER_2 s)" by simp_all
    have f: "filter playable (map snd ((key, items) # rest)) = items # filter playable (map snd rest)"
      using True by simp
    have e: "list_ex playable (map snd ((key, items) # rest))" using True by simp
    show ?thesis unfolding f ih p using e by auto
  next
    case False
    from "2.prems" have r: "place_groups rest c_x c_y s keys_to_delete is_not_playable = (c_x', s', ktd', np')"
      by (simp only: place_groups.simps False if_False)
    have f: "filter playable (map snd ((key, items) # rest)) = filter playable (map snd rest)"
      using False by simp
    have e: "list_ex playable (map snd ((key, items) # rest)) = list_ex playable (map snd rest)"
      using False by simp
    from "2.IH"(2) [OF False r] show ?thesis unfolding f e .
  qed
qed

lemma add_tile_to_ai_loop_fresh:
  "add_tile_to_ai_loop cfg s draws = Some path \<Longrightarrow>
   path \<notin> set (keys (game_object_database s)) \<and> path \<notin> set (keys (PLAYER_2 s)) \<and>
   path \<notin> set (keys (PLAYER_1 s))"
proof (induction draws)
  case Nil
  then show ?case by simp
next
  case (Cons d draws)
  obtain r1 r2 where d: "d = (r1, r2)" by (cases d)
  from Cons.prems Cons.IH show ?case
    unfolding d by (auto split: option.splits if_splits)
qed

lemma add_tile_to_ai_props:
  assumes "add_tile_to_ai cfg s draws = Some s'"
  shows "game_object_database s' = game_object_database s" and "PLAYER_1 s' = PLAYER_1 s"
    and "\<exists>path. path \<notin> set (keys (game_object_database s)) \<and> path \<notin> set (keys (PLAYER_2 s)) \<and>
           path \<notin> set (keys (PLAYER_1 s)) \<and>
           PLAYER_2 s' = PLAYER_2 s @ [(path, Rect 0 0 (fst (TILE_IMAGE_SIZE cfg)) (snd (TILE_IMAGE_SIZE cfg)))]"
proof -
  from assms obtain path where l: "add_tile_to_ai_loop cfg s draws = Some path"
    by (auto simp: add_tile_to_ai_def split: option.splits)
  note f = add_tile_to_ai_loop_fresh [OF l]
  from assms l f have s': "s' = s\<lparr>image_database := AList.update path (0, 0) (image_database s),
                      PLAYER_2 := AList.update path
                         (Rect 0 0 (fst (TILE_IMAGE_SIZE cfg)) (snd (TILE_IMAGE_SIZE cfg))) (PLAYER_2 s)\<rparr>"
    by (simp add: add_tile_to_ai_def)
  show "game_object_database s' = game_object_database s" "PLAYER_1 s' = PLAYER_1 s"
    by (simp_all add: s')
  from f have "path \<notin> fst ` set (PLAYER_2 s)" by (simp add: keys_def)
  then have "AList.update path (Rect 0 0 (fst (TILE_IMAGE_SIZE cfg)) (snd (TILE_IMAGE_SIZE cfg))) (PLAYER_2 s)
             = PLAYER_2 s @ [(path, Rect 0 0 (fst (TILE_IMAGE_SIZE cfg)) (snd (TILE_IMAGE_SIZE cfg)))]"
    by (rule update_fresh)
  with f show "\<exists>path. path \<notin> set (keys (game_object_database s)) \<and> path \<notin> set (keys (PLAYER_2 s)) \<and>
           path \<notin> set (keys (PLAYER_1 s)) \<and>
           PLAYER_2 s' = PLAYER_2 s @ [(path, Rect 0 0 (fst (TILE_IMAGE_SIZE cfg)) (snd (TILE_IMAGE_SIZE cfg)))]"
    by (auto simp: s')
qed


text \<open>
  C5 (as amended). Whenever play\_ai\_turn returns, the tiles it has put on the board are
  exactly the groups of three to five tiles that share a colour and a parity on the
  opponent's rack, and each such group is laid in ascending order of its numbers. (The
  numbers need not go up by two.)
\<close>

theorem play_ai_turn_melds:
  assumes "play_ai_turn cfg is_delete s draws = Some s'"
  shows "\<exists>melds. played_melds (PLAYER_2 s) = Some melds \<and>
           set (keys (game_object_database s')) =
             set (keys (game_object_database s)) \<union> set (concat (map (map fst) melds)) \<and>
           (\<forall>m \<in> set melds. parity_meld m)"
proof -
  from assms obtain ev od where a: "ai_groups (PLAYER_2 s) = Some (ev, od)"
    by (auto simp: play_ai_turn_def split: option.splits)
  from assms a obtain empty_space start0 rest where
    "calculate_empty_spaces cfg s = Some empty_space" and
    st: "start_loop empty_space 0 [] = start0 # rest"
    by (auto simp: play_ai_turn_def split: option.splits list.splits)
  define c_x where "c_x = (if snd start0 \<noteq> fst (BIG_BOX_POSITION cfg) then snd start0 + 52 else snd start0)"
  define c_y where "c_y = fst start0"
  obtain c_x1 s1 keys1 np_even where
    pe: "place_groups ev c_x c_y s [] True = (c_x1, s1, keys1, np_even)"
    by (cases "place_groups ev c_x c_y s [] True") auto
  obtain c_x2 s2 keys2 np_odd where
    po: "place_groups od c_x1 c_y s1 keys1 True = (c_x2, s2, keys2, np_odd)"
    by (cases "place_groups od c_x1 c_y s1 keys1 True") auto
  define s3 where "s3 = (if is_delete
       then s2\<lparr>PLAYER_2 := filter (\<lambda>kv. fst kv \<notin> set keys2) (PLAYER_2 s2)\<rparr> else s2)"
  have "play_ai_turn cfg is_delete s draws =
        (if np_even \<and> np_odd then add_tile_to_ai cfg s3 draws else Some s3)"
    using a \<open>calculate_empty_spaces cfg s = Some empty_space\<close> st pe po
    unfolding play_ai_turn_def Let_def c_x_def c_y_def s3_def by simp
  with assms have fin: "(if np_even \<and> np_odd then add_tile_to_ai cfg s3 draws else Some s3) = Some s'"
    by simp
  have g3: "game_object_database s3 = game_object_database s2" by (simp add: s3_def)
  have g': "game_object_database s' = game_object_database s3"
    using fin add_tile_to_ai_props(1) [of cfg s3 draws s'] by (auto split: if_splits)
  let ?melds = "filter playable (map snd ev) @ filter playable (map snd od)"
  have pm: "played_melds (PLAYER_2 s) = Some ?melds" using a by (simp add: played_melds_def)
  from place_groups_props [OF pe] place_groups_props [OF po]
  have "set (keys (game_object_database s2)) =
        set (keys (game_object_database s)) \<union> set (concat (map (map fst) ?melds))"
    by auto
  with g3 g' have k: "set (keys (game_object_database s')) =
        set (keys (game_object_database s)) \<union> set (concat (map (map fst) ?melds))" by simp
  have "\<forall>m \<in> set ?melds. parity_meld m"
    using played_melds_shape [OF pm] by blast
  with pm k show ?thesis by blast
qed

theorem play_ai_turn_melds_witness:
  "play_ai_turn ex_cfg True ex_ai [] = Some ex_ai_after \<and> parity_meld ex_ai_meld"
proof -
  have p: "play_ai_turn ex_cfg True ex_ai [] = Some ex_ai_after" by code_simp
  have m: "played_melds (PLAYER_2 ex_ai) = Some [ex_ai_meld]" by code_simp
  from play_ai_turn_melds [OF p] m have "parity_meld ex_ai_meld" by auto
  with p show ?thesis by simp
qed

text \<open>
  The claim as stated fails: the opponent plays RED 1, RED 5, RED 13, whose numbers do
  not go up by two.
\<close>

theorem play_ai_turn_not_step2:
  "played_melds (PLAYER_2 ex_ai) = Some [ex_ai_meld] \<and> \<not> spec_step2 ex_ai_meld \<and>
   play_ai_turn ex_cfg True ex_ai [] = Some ex_ai_after \<and>
   tile_at ex_ai_after ''images/tiles/1-15 RED/RED_4_13.png'' = Some (412, 50)"
  by code_simp

lemma add_tile_to_ai_loop_draw_key:
  "add_tile_to_ai_loop cfg s (d # draws) =
     (case draw_key cfg d of None \<Rightarrow> None
      | Some path \<Rightarrow> if in_use s path then add_tile_to_ai_loop cfg s draws else Some path)"
  by (cases d) (simp add: draw_key_def in_use_def split: option.splits)

lemma table_ok_draw_key:
  assumes "table_ok cfg"
  shows "\<exists>path. draw_key cfg d = Some path"
proof -
  let ?t = "TILES_IMAGES_PATHS cfg"
  from assms have len: "2 \<le> length ?t" "length ?t \<le> 6" and row: "hd ?t \<noteq> []"
    by (simp_all add: table_ok_def)
  define c where "c = 1 + int (fst d) mod (int (length ?t) - 1)"
  have rc: "randint 1 (int (length ?t) - 1) (fst d) = Some c"
    using len by (simp add: randint_def c_def)
  define m where "m = int (fst d) mod (int (length ?t) - 1)"
  have "0 \<le> m" "m < int (length ?t) - 1"
    using len by (simp_all add: m_def)
  moreover have "c = 1 + m" by (simp add: c_def m_def)
  ultimately have cb: "1 \<le> nat c" "nat c \<le> 5" using len(2) by arith+
  from len obtain row0 rows where t: "?t = row0 # rows" by (cases ?t) auto
  with row have r0: "row0 \<noteq> []" by simp
  have p0: "py_nth ?t 0 = Some row0" by (simp add: py_nth_def t)
  have rn: "randint 1 (int (length row0)) (snd d) = Some (1 + int (snd d) mod int (length row0))"
    using r0 by (simp add: randint_def)
  from py_nth_color [OF cb] obtain name where "py_nth color (int (nat c) - 1) = Some name" ..
  then have "\<exists>path. tile_image_path (nat c) (nat (1 + int (snd d) mod int (length row0))) = Some path"
    by (simp add: tile_image_path_def)
  with rc p0 rn show ?thesis by (simp add: draw_key_def)
qed

lemma add_tile_to_ai_loop_total:
  assumes "table_ok cfg"
  shows "find (names_free_tile cfg s) draws = Some d \<Longrightarrow>
         \<exists>path. draw_key cfg d = Some path \<and> \<not> in_use s path \<and>
                add_tile_to_ai_loop cfg s draws = Some path"
proof (induction draws)
  case Nil
  then show ?case by simp
next
  case (Cons e draws)
  from table_ok_draw_key [OF assms] obtain p where p: "draw_key cfg e = Some p" ..
  show ?case
  proof (cases "in_use s p")
    case True
    with p have "\<not> names_free_tile cfg s e" by (simp add: names_free_tile_def)
    with Cons.prems have "find (names_free_tile cfg s) draws = Some d" by simp
    from Cons.IH [OF this] p True show ?thesis
      by (simp add: add_tile_to_ai_loop_draw_key)
  next
    case False
    with p have "names_free_tile cfg s e" by (simp add: names_free_tile_def)
    with Cons.prems have "d = e" by simp
    with p False show ?thesis by (simp add: add_tile_to_ai_loop_draw_key)
  qed
qed

text \<open>
  C6 (as amended). When no colour has three to five tiles of one parity on the
  opponent's rack, play\_ai\_turn finds a cell to start from, the table of tile images
  has a first row that is not empty and one to five rows more, and the random numbers
  come to name a free tile, then play\_ai\_turn returns: it has put nothing on the board
  and has added exactly one tile to the end of the opponent's rack, the first free tile
  that the random numbers name.
\<close>

theorem play_ai_turn_draws:
  assumes "played_melds (PLAYER_2 s) = Some []"
    and "has_start cfg s" and "table_ok cfg"
    and "find (names_free_tile cfg s) draws = Some d"
  shows "\<exists>s' path. play_ai_turn cfg True s draws = Some s' \<and>
           draw_key cfg d = Some path \<and> \<not> in_use s path \<and>
           game_object_database s' = game_object_database s \<and> PLAYER_1 s' = PLAYER_1 s \<and>
           PLAYER_2 s' = PLAYER_2 s @
             [(path, Rect 0 0 (fst (TILE_IMAGE_SIZE cfg)) (snd (TILE_IMAGE_SIZE cfg)))] \<and>
           length (PLAYER_2 s') = length (PLAYER_2 s) + 1"
proof -
  from assms(1) obtain ev od where a: "ai_groups (PLAYER_2 s) = Some (ev, od)"
    and none: "filter playable (map snd ev) = []" "filter playable (map snd od) = []"
    by (auto simp: played_melds_def split: option.splits)
  from none have ne: "\<not> list_ex playable (map snd ev)" "\<not> list_ex playable (map snd od)"
    by (simp_all add: list_ex_iff filter_empty_conv)
  from assms(2) obtain empty_space start0 rest where
    es: "calculate_empty_spaces cfg s = Some empty_space" and
    st: "start_loop empty_space 0 [] = start0 # rest"
    by (auto simp: has_start_def neq_Nil_conv split: option.splits)
  define c_x where "c_x = (if snd start0 \<noteq> fst (BIG_BOX_POSITION cfg) then snd start0 + 52 else snd start0)"
  define c_y where "c_y = fst start0"
  obtain c_x1 s1 keys1 np_even where
    pe: "place_groups ev c_x c_y s [] True = (c_x1, s1, keys1, np_even)"
    by (cases "place_groups ev c_x c_y s [] True") auto
  from place_groups_props [OF pe] ne(1) none(1)
  have e: "s1 = s" "keys1 = []" "np_even" by simp_all
  obtain c_x2 s2 keys2 np_odd where
    po: "place_groups od c_x1 c_y s1 keys1 True = (c_x2, s2, keys2, np_odd)"
    by (cases "place_groups od c_x1 c_y s1 keys1 True") auto
  from place_groups_props [OF po] ne(2) none(2) e
  have o: "s2 = s" "keys2 = []" "np_odd" by simp_all
  have "s\<lparr>PLAYER_2 := filter (\<lambda>kv. fst kv \<notin> set []) (PLAYER_2 s)\<rparr> = s" by simp
  then have t: "play_ai_turn cfg True s draws = add_tile_to_ai cfg s draws"
    using a es st pe po e o by (simp add: play_ai_turn_def Let_def c_x_def c_y_def)
  from add_tile_to_ai_loop_total [OF assms(3,4)] obtain path where
    k: "draw_key cfg d = Some path" and f: "\<not> in_use s path"
    and l: "add_tile_to_ai_loop cfg s draws = Some path" by blast
  let ?r = "Rect 0 0 (fst (TILE_IMAGE_SIZE cfg)) (snd (TILE_IMAGE_SIZE cfg))"
  let ?s' = "s\<lparr>image_database := AList.update path (0, 0) (image_database s),
               PLAYER_2 := AList.update path ?r (PLAYER_2 s)\<rparr>"
  from f have fr: "path \<notin> set (keys (PLAYER_2 s))" "path \<notin> set (keys (PLAYER_1 s))"
    "path \<notin> set (keys (game_object_database s))" by (simp_all add: in_use_def)
  with l have "add_tile_to_ai cfg s draws = Some ?s'" by (simp add: add_tile_to_ai_def)
  with t have r: "play_ai_turn cfg True s draws = Some ?s'" by simp
  from fr(1) have u: "AList.update path ?r (PLAYER_2 s) = PLAYER_2 s @ [(path, ?r)]"
    by (simp add: update_fresh keys_def)
  have "game_object_database ?s' = game_object_database s" "PLAYER_1 ?s' = PLAYER_1 s"
    "PLAYER_2 ?s' = PLAYER_2 s @ [(path, ?r)]" "length (PLAYER_2 ?s') = length (PLAYER_2 s) + 1"
    using u by simp_all
  with r k f show ?thesis by blast
qed

theorem play_ai_turn_draws_witness:
  "played_melds (PLAYER_2 ex_ai_draw) = Some [] \<and> has_start ex_cfg ex_ai_draw \<and> table_ok ex_cfg \<and>
   find (names_free_tile ex_cfg ex_ai_draw) [(2, 4), (0, 6)] = Some (0, 6) \<and>
   play_ai_turn ex_cfg True ex_ai_draw [(2, 4), (0, 6)] = Some ex_ai_draw_after \<and>
   length (PLAYER_2 ex_ai_draw_after) = length (PLAYER_2 ex_ai_draw) + 1"
proof -
  have m: "played_melds (PLAYER_2 ex_ai_draw) = Some []" by code_simp
  have h: "has_start ex_cfg ex_ai_draw" by code_simp
  have t: "table_ok ex_cfg" by code_simp
  have f: "find (names_free_tile ex_cfg ex_ai_draw) [(2, 4), (0, 6)] = Some (0, 6)" by code_simp
  have p: "play_ai_turn ex_cfg True ex_ai_draw [(2, 4), (0, 6)] = Some ex_ai_draw_after"
    by code_simp
  from play_ai_turn_draws [OF m h t f] p
  have "length (PLAYER_2 ex_ai_draw_after) = length (PLAYER_2 ex_ai_draw) + 1" by auto
  with m h t f p show ?thesis by simp
qed

text \<open>
  The claim as stated fails: the rack RED 13, BLUE 4, RED 1, RED 5 holds no three tiles
  of one colour with numbers \<open>n\<close>, \<open>n + 2\<close>, \<open>n + 4\<close>, yet the opponent plays three
  tiles and draws none, although a draw was on offer.
\<close>

theorem play_ai_turn_plays_without_run:
  "\<not> spec_has_run (PLAYER_2 ex_ai) \<and>
   play_ai_turn ex_cfg True ex_ai [(0, 6)] = Some ex_ai_after \<and>
   length (PLAYER_2 ex_ai) = 4 \<and> length (PLAYER_2 ex_ai_after) = 1"
  by code_simp

subsection \<open>The initial deal\<close>

text \<open>When the loops of the deal return, every rack holds fifteen entries.\<close>

lemma draw_player_props:
  "draw_player til r players temp draws = Some (players', temp', draws') \<Longrightarrow> length players' = 15"
proof (induction draws arbitrary: players temp)
  case Nil
  then show ?case by (simp split: if_splits)
next
  case (Cons d draws)
  obtain r1 r2 where d: "d = (r1, r2)" by (cases d)
  show ?case
  proof (cases "length players = 15")
    case True
    with Cons.prems d show ?thesis by simp
  next
    case False
    with Cons.prems d obtain i row0 j where
      i: "randint 0 (int (length til) - 1) r1 = Some i"
      and row0: "py_nth til 0 = Some row0"
      and j: "randint 1 (int (length row0)) r2 = Some j"
      by (auto split: option.splits)
    let ?p = "str (nat i) @ str (nat j)"
    show ?thesis
    proof (cases "?p \<in> set temp")
      case True
      with Cons.prems d False i row0 j
      have "draw_player til r players temp draws = Some (players', temp', draws')"
        by (simp add: Let_def)
      from Cons.IH [OF this] show ?thesis .
    next
      case fresh: False
      with Cons.prems d False i row0 j obtain row path where
        "py_nth til i = Some row" "py_nth row j = Some path"
        and rec: "draw_player til r (AList.update path r players) (temp @ [?p]) draws
                  = Some (players', temp', draws')"
        by (auto simp: Let_def split: option.splits)
      from Cons.IH [OF rec] show ?thesis .
    qed
  qed
qed

lemma draw_players_props:
  "draw_players til r players_database temp draws = Some result \<Longrightarrow>
   length result = length players_database \<and> list_all (\<lambda>players. length players = 15) result"
proof (induction players_database arbitrary: temp draws result)
  case Nil
  then show ?case by simp
next
  case (Cons players rest)
  from Cons.prems obtain p1 t1 dr1 rest' where
    a: "draw_player til r players temp draws = Some (p1, t1, dr1)"
    and b: "draw_players til r rest t1 dr1 = Some rest'"
    and res: "result = p1 # rest'"
    by (auto split: option.splits)
  from draw_player_props [OF a] Cons.IH [OF b] res show ?case by simp
qed

text \<open>
  A deal that returns: on the table \<open>ex_tiles\<close> the random numbers \<open>ex_draws\<close> deal
  BLACK 1 to 15 to the first rack and BLUE 1 to 15 to the second.
\<close>

lemma draw_initial_tiles_example:
  "draw_initial_tiles ex_cfg ex_tiles [[], []] ex_draws =
     Some [map (\<lambda>n. (the (tile_image_path 1 n), Rect 0 0 52 73)) [1 ..< 16],
           map (\<lambda>n. (the (tile_image_path 2 n), Rect 0 0 52 73)) [1 ..< 16]]"
  by code_simp

text \<open>
  On every non-empty table of tile images the deal can fail: the second random number
  reaches the length of the first row, row 0 is among the rows drawn from, and row 0 has
  no entry at its own length (nor has a row that is no longer than row 0).
\<close>

lemma draw_initial_tiles_index_error:
  assumes "tile_image_list \<noteq> []"
  shows "draw_initial_tiles cfg tile_image_list ([] # rest)
           ((0, length (hd tile_image_list) - 1) # draws) = None"
proof -
  from assms obtain row0 rows where t: "tile_image_list = row0 # rows"
    by (cases tile_image_list) auto
  have i: "randint 0 (int (length tile_image_list) - 1) 0 = Some 0"
    by (simp add: randint_def t)
  have p0: "py_nth tile_image_list 0 = Some row0"
    by (simp add: py_nth_def t)
  show ?thesis
  proof (cases "row0 = []")
    case True
    then have "randint 1 (int (length row0)) (length (hd tile_image_list) - 1) = None"
      by (simp add: randint_def)
    with i p0 show ?thesis by (simp add: draw_initial_tiles_def)
  next
    case False
    then have l: "0 < length row0" by simp
    have "int (length row0 - 1) < int (length row0)" using l by simp
    then have "int (length row0 - 1) mod int (length row0) = int (length row0 - 1)"
      by (simp only: mod_pos_pos_trivial of_nat_0_le_iff)
    moreover have "randint 1 (int (length row0)) (length row0 - 1) =
        Some (1 + int (length row0 - 1) mod int (length row0))"
      using l by (simp add: randint_def)
    ultimately have j: "randint 1 (int (length row0)) (length (hd tile_image_list) - 1) = Some (int (length row0))"
      using l by (simp add: t)
    have n: "py_nth row0 (int (length row0)) = None" by (simp add: py_nth_def)
    from i p0 j n show ?thesis
      by (simp add: draw_initial_tiles_def Let_def)
  qed
qed

text \<open>
  C10. The code does not keep to the claim. draw\_initial\_tiles draws the column with
  \<^verbatim>\<open>random.randint(1, len(tile_image_list[0]))\<close>, whose upper end is one past the last
  index of row 0, and the row with \<^verbatim>\<open>random.randint(0, len(tile_image_list) - 1)\<close>, which
  includes row 0. On the table \<open>ex_tiles\<close> (a first row of fifteen entries, then per colour
  a row of sixteen) and two empty racks, the random numbers 0 and 14 make the first draw
  \<open>random_tile = (0, 15)\<close>; \<^verbatim>\<open>tile_image_list[0][15]\<close> raises IndexError and no rack
  receives a tile.
\<close>

theorem draw_initial_tiles_raises:
  "ex_tiles \<noteq> [] \<and> length (ex_tiles ! 0) = 15 \<and>
   randint 0 (int (length ex_tiles) - 1) 0 = Some 0 \<and>
   randint 1 (int (length (ex_tiles ! 0))) 14 = Some 15 \<and>
   py_nth (ex_tiles ! 0) 15 = None \<and>
   draw_initial_tiles ex_cfg ex_tiles [[], []] ((0, 14) # ex_draws) = None"
  by code_simp

subsection \<open>The tile pool\<close>

lemma set_pool_list:
  "set (pool_list colours numbers instances) =
   {t. colour_of t \<in> set colours \<and> number_of t \<in> set numbers \<and> instance_of t \<in> set instances}"
proof -
  have "t \<in> set (pool_list colours numbers instances) \<longleftrightarrow>
        colour_of t \<in> set colours \<and> number_of t \<in> set numbers \<and> instance_of t \<in> set instances" for t
    by (cases t) (auto simp: pool_list_def)
  then show ?thesis by blast
qed

lemma all_colours: "c \<in> set [BLACK, BLUE, GREEN, RED, YELLOW]"
  by (cases c) simp_all

lemma pool_copies:
  assumes "1 \<le> n" "n \<le> 15"
  shows "{t \<in> create_initial_pool. colour_of t = c \<and> number_of t = n} = {Tile c n 1, Tile c n 2}"
proof -
  have "t \<in> {t \<in> create_initial_pool. colour_of t = c \<and> number_of t = n} \<longleftrightarrow>
        t \<in> {Tile c n 1, Tile c n 2}" for t
    using assms all_colours [of c]
    by (cases t) (auto simp: create_initial_pool_def set_pool_list)
  then show ?thesis by blast
qed

text \<open>
  C7. The pool of the specification holds, for every colour and every number from 1 to
  15, exactly two tiles, which differ in their instance (1 and 2); it holds no other
  number; and it is the same set whatever the order in which the colours, numbers and
  instances are enumerated.
\<close>

theorem create_initial_pool_two_instances:
  "(\<forall>c n. 1 \<le> n \<and> n \<le> 15 \<longrightarrow>
      card {t \<in> create_initial_pool. colour_of t = c \<and> number_of t = n} = 2 \<and>
      {t \<in> create_initial_pool. colour_of t = c \<and> number_of t = n} = {Tile c n 1, Tile c n 2}) \<and>
   (\<forall>t \<in> create_initial_pool. 1 \<le> number_of t \<and> number_of t \<le> 15) \<and>
   (\<forall>colours numbers instances.
      set colours = set [BLACK, BLUE, GREEN, RED, YELLOW] \<and> set numbers = {1 .. 15} \<and>
      set instances = {1, 2} \<longrightarrow>
      set (pool_list colours numbers instances) = create_initial_pool)"
proof (intro conjI allI impI ballI)
  fix c :: tile_colour and n :: nat
  assume n: "1 \<le> n \<and> n \<le> 15"
  then have e: "{t \<in> create_initial_pool. colour_of t = c \<and> number_of t = n} = {Tile c n 1, Tile c n 2}"
    by (intro pool_copies) simp_all
  show "{t \<in> create_initial_pool. colour_of t = c \<and> number_of t = n} = {Tile c n 1, Tile c n 2}"
    by (rule e)
  show "card {t \<in> create_initial_pool. colour_of t = c \<and> number_of t = n} = 2"
    unfolding e by simp
next
  fix t assume "t \<in> create_initial_pool"
  then have "number_of t \<in> set [1 ..< 16]" by (simp add: create_initial_pool_def set_pool_list)
  then show "1 \<le> number_of t" "number_of t \<le> 15" by auto
next
  fix colours :: "tile_colour list" and numbers instances :: "nat list"
  assume "set colours = set [BLACK, BLUE, GREEN, RED, YELLOW] \<and> set numbers = {1 .. 15} \<and>
      set instances = {1, 2::nat}"
  moreover have "set [1 ..< 16] = {1 .. 15::nat}" by auto
  ultimately show "set (pool_list colours numbers instances) = create_initial_pool"
    by (simp add: create_initial_pool_def set_pool_list)
qed

theorem create_initial_pool_two_instances_witness:
  "card {t \<in> create_initial_pool. colour_of t = RED \<and> number_of t = 5} = 2 \<and>
   set (pool_list [YELLOW, RED, GREEN, BLUE, BLACK] (rev [1 ..< 16]) [2, 1]) = create_initial_pool"
proof -
  have a: "(1::nat) \<le> 5 \<and> (5::nat) \<le> 15" by simp
  have b: "set [YELLOW, RED, GREEN, BLUE, BLACK] = set [BLACK, BLUE, GREEN, RED, YELLOW] \<and>
           set (rev [1 ..< 16]) = {1 .. 15::nat} \<and> set [2, 1] = {1, 2::nat}"
    by auto
  from create_initial_pool_two_instances a b show ?thesis by blast
qed

subsection \<open>The tiles of the game\<close>




















































text \<open>check\_logic is a validation pass, followed or not by the opponent's turn.\<close>

lemma check_logic_steps:
  assumes "check_logic cfg s draws = Some s'"
  shows "\<exists>s1. step cfg Validating s s1 \<and> (s' = s1 \<or> step cfg Opponent s1 s')"
proof -
  from assms obtain b s1 where v: "validate cfg s = Some (b, s1)"
    and r: "s' = s1 \<or> play_ai_turn cfg True s1 draws = Some s'"
    by (auto simp: check_logic_def split: option.splits if_splits)
  from v have "step cfg Validating s s1" by (rule step.validating)
  with r show ?thesis by (auto intro: step.opponent)
qed









subsection \<open>The end of the game\<close>

text \<open>
  C8. update\_blit shows the game-over banner exactly when one of the two racks is
  empty, and the banner names a player whose rack is empty.
\<close>

theorem update_blit_game_over:
  "(fst (update_blit s) \<noteq> None) = (PLAYER_1 s = [] \<or> PLAYER_2 s = []) \<and>
   (fst (update_blit s) = Some ''PLAYER 1 WINS'' \<longrightarrow> PLAYER_1 s = []) \<and>
   (fst (update_blit s) = Some ''PLAYER 2 WINS'' \<longrightarrow> PLAYER_2 s = []) \<and>
   (fst (update_blit s) \<in> {None, Some ''PLAYER 1 WINS'', Some ''PLAYER 2 WINS''})"
  by (simp add: update_blit_def)

theorem update_blit_game_over_witness:
  "fst (update_blit (ex_game\<lparr>PLAYER_2 := []\<rparr>)) = Some ''PLAYER 2 WINS'' \<and>
   PLAYER_2 (ex_game\<lparr>PLAYER_2 := []\<rparr>) = []"
proof -
  have "fst (update_blit (ex_game\<lparr>PLAYER_2 := []\<rparr>)) = Some ''PLAYER 2 WINS''"
    by (simp add: update_blit_def ex_game_def)
  with update_blit_game_over [of "ex_game\<lparr>PLAYER_2 := []\<rparr>"] show ?thesis by blast
qed

end
